theory Spec2Isabelle
  imports Complex_Main "HOL-Library.Sublist"
begin

section \<open>Multipart copy of the OSS client (lib/common/multipart-copy.js)\<close>

text \<open>
  Sizes, offsets and part numbers are JavaScript numbers, that is binary64 doubles, holding
  byte counts and indices. The numbers that the functions receive are modelled as integers.
  The part planner computes with them: each of its results is rounded to the nearest double,
  ties to the even significand, so a result is an integer-valued double, an infinity or
  \<open>NaN\<close>. Up to \<open>2 ^ 53\<close> in magnitude every integer is a double and the arithmetic is exact.
\<close>

subsection \<open>Numbers\<close>

datatype num = Num int | PosInfinity | NegInfinity | NaN

text \<open>The number of binary digits of a natural number.\<close>

function bit_length :: "nat \<Rightarrow> nat" where
  "bit_length n = (if n = 0 then 0 else Suc (bit_length (n div 2)))"
  by pat_completeness auto
termination
  by (relation "measure id") auto

declare bit_length.simps [simp del]

text \<open>
  The integers up to \<open>2 ^ 53\<close> are doubles; a double is below \<open>2 ^ 1024\<close> in magnitude.
\<close>

definition exact_bound :: int where
  "exact_bound = 2 ^ 53"

definition overflow_bound :: int where
  "overflow_bound = 2 ^ 1024"

text \<open>The integer nearest to \<open>n / d\<close> for \<open>0 < d\<close>, the even one of two that are equally near.\<close>

definition rhe_div :: "int \<Rightarrow> int \<Rightarrow> int" where
  "rhe_div n d =
     (let q = n div d; r = n mod d
      in if 2 * r < d then q else if d < 2 * r then q + 1 else if even q then q else q + 1)"

text \<open>
  The double nearest to an integer \<open>0 \<le> x\<close>: \<open>x\<close> itself up to \<open>2 ^ 53\<close>; above, the nearest
  multiple of the unit in the last place of a 53-bit significand, and \<open>Infinity\<close> when
  that is \<open>2 ^ 1024\<close> or more.
\<close>

definition round_nat :: "int \<Rightarrow> num" where
  "round_nat x =
     (if x \<le> exact_bound then Num x
      else (let u = 2 ^ (bit_length (nat x) - 53); y = u * rhe_div x u
            in if overflow_bound \<le> y then PosInfinity else Num y))"

definition js_neg :: "num \<Rightarrow> num" where
  "js_neg a = (case a of Num x \<Rightarrow> Num (- x) | PosInfinity \<Rightarrow> NegInfinity
               | NegInfinity \<Rightarrow> PosInfinity | NaN \<Rightarrow> NaN)"

definition js_round :: "int \<Rightarrow> num" where
  "js_round x = (if 0 \<le> x then round_nat x else js_neg (round_nat (- x)))"

text \<open>\<open>a * b\<close> and \<open>a + b\<close> where \<open>b\<close> is finite, and \<open>Math.min(a, b)\<close>.\<close>

definition js_mul :: "int \<Rightarrow> int \<Rightarrow> num" where
  "js_mul a b = js_round (a * b)"

definition js_add :: "num \<Rightarrow> int \<Rightarrow> num" where
  "js_add a b = (case a of Num x \<Rightarrow> js_round (x + b) | PosInfinity \<Rightarrow> PosInfinity
                 | NegInfinity \<Rightarrow> NegInfinity | NaN \<Rightarrow> NaN)"

fun js_min :: "num \<Rightarrow> num \<Rightarrow> num" where
  "js_min NaN b = NaN"
| "js_min a NaN = NaN"
| "js_min NegInfinity b = NegInfinity"
| "js_min a NegInfinity = NegInfinity"
| "js_min PosInfinity b = b"
| "js_min a PosInfinity = a"
| "js_min (Num x) (Num y) = Num (min x y)"

text \<open>
  \<open>Math.ceil(a / b)\<close>. The quotient of two positive integers \<open>A\<close> and \<open>B\<close> is rounded to
  a double \<open>m * 2 ^ e\<close>: the exponent \<open>e\<close> is the one at which the significand
  \<open>A / B / 2 ^ e\<close> is at least \<open>2 ^ 52\<close> and below \<open>2 ^ 53\<close> (not below the exponent of the
  subnormal numbers), and \<open>m\<close> is that significand rounded.
\<close>

definition sig_ge :: "int \<Rightarrow> int \<Rightarrow> int \<Rightarrow> bool" where
  "sig_ge A B e =
     (if 0 \<le> e then 2 ^ 52 * (B * 2 ^ nat e) \<le> A else 2 ^ 52 * B \<le> A * 2 ^ nat (- e))"

definition sig_round :: "int \<Rightarrow> int \<Rightarrow> int \<Rightarrow> int" where
  "sig_round A B e =
     (if 0 \<le> e then rhe_div A (B * 2 ^ nat e) else rhe_div (A * 2 ^ nat (- e)) B)"

definition quot_exponent :: "int \<Rightarrow> int \<Rightarrow> int" where
  "quot_exponent A B =
     (let e = int (bit_length (nat A)) - int (bit_length (nat B)) - 52
      in max (if sig_ge A B e then e else e - 1) (- 1074))"

text \<open>The least integer not below \<open>v * 2 ^ e\<close>.\<close>

definition ceil_scaled :: "int \<Rightarrow> int \<Rightarrow> int" where
  "ceil_scaled v e = (if 0 \<le> e then v * 2 ^ nat e else - ((- v) div 2 ^ nat (- e)))"

definition js_ceil_div :: "int \<Rightarrow> int \<Rightarrow> num" where
  "js_ceil_div a b =
     (if b = 0 then (if 0 < a then PosInfinity else if a < 0 then NegInfinity else NaN)
      else if a = 0 then Num 0
      else (let e = quot_exponent \<bar>a\<bar> \<bar>b\<bar>;
                m = sig_round \<bar>a\<bar> \<bar>b\<bar> e
            in Num (ceil_scaled (sgn a * sgn b * m) e)))"

subsection \<open>Part planning\<close>

record part_off =
  start :: num
  end_off :: num

text \<open>The \<open>for\<close> loop of \<open>_divideMultipartCopyParts\<close>, from index \<open>i\<close> on.\<close>

function divide_loop :: "int \<Rightarrow> int \<Rightarrow> int \<Rightarrow> int \<Rightarrow> int \<Rightarrow> part_off list \<Rightarrow> part_off list" where
  "divide_loop numParts fileSize partSize startOffset i partOffs =
     (if i < numParts then
        (let s = js_add (js_mul partSize i) startOffset;
             e = js_min (js_add s partSize) (js_add (Num fileSize) startOffset)
         in divide_loop numParts fileSize partSize startOffset (i + 1)
              (partOffs @ [\<lparr>start = s, end_off = e\<rparr>]))
      else partOffs)"
  by pat_completeness auto
termination
  by (relation "measure (\<lambda>(numParts, fileSize, partSize, startOffset, i, partOffs). nat (numParts - i))") auto

declare divide_loop.simps [simp del]

text \<open>
  \<open>_divideMultipartCopyParts\<close>. With \<open>partSize = 0\<close> the quotient is \<open>Infinity\<close> for a
  positive \<open>fileSize\<close>, and the loop never ends (\<open>None\<close>); it is \<open>NaN\<close> or \<open>-Infinity\<close>
  otherwise, and the loop body never runs.
\<close>

definition divideMultipartCopyParts :: "int \<Rightarrow> int \<Rightarrow> int \<Rightarrow> part_off list option" where
  "divideMultipartCopyParts fileSize partSize startOffset =
     (case js_ceil_div fileSize partSize of
        Num numParts \<Rightarrow> Some (divide_loop numParts fileSize partSize startOffset 0 [])
      | PosInfinity \<Rightarrow> None
      | NegInfinity \<Rightarrow> Some []
      | NaN \<Rightarrow> Some [])"

subsection \<open>Errors, responses and the checkpoint\<close>

text \<open>
  An \<open>Error\<close> object: its \<open>name\<close>, its \<open>message\<close> and the \<open>partNum\<close> property that
  a part job attaches. What the copy functions throw is such an error or the cancel
  event of \<open>_makeCancelEvent\<close>.
\<close>

record err =
  ename :: string
  message :: string
  partNum :: "int option"

datatype thrown = Thrown err | CancelEvent

definition new_Error :: "string \<Rightarrow> err" where
  "new_Error msg = \<lparr>ename = ''Error'', message = msg, partNum = None\<rparr>"

text \<open>\<open>Error.prototype.toString\<close>.\<close>

definition toString :: "err \<Rightarrow> string" where
  "toString e =
     (if ename e = [] then message e
      else if message e = [] then ename e
      else ename e @ '': '' @ message e)"

text \<open>Decimal rendering of a number inside a template literal.\<close>

function show_nat :: "nat \<Rightarrow> string" where
  "show_nat n =
     (if n < 10 then [''0123456789'' ! n]
      else show_nat (n div 10) @ [''0123456789'' ! (n mod 10)])"
  by pat_completeness auto
termination
  by (relation "measure id") auto

declare show_nat.simps [simp del]

definition show_int :: "int \<Rightarrow> string" where
  "show_int i = (if i < 0 then ''-'' @ show_nat (nat (- i)) else show_nat (nat i))"

definition show_partNum :: "int option \<Rightarrow> string" where
  "show_partNum p = (case p of None \<Rightarrow> ''undefined'' | Some i \<Rightarrow> show_int i)"

text \<open>The raw response \<open>res\<close> of a request, with the \<open>etag\<close> header.\<close>

record res =
  status :: int
  headers_etag :: string

record done_part =
  number :: int
  etag :: string

record checkpoint =
  name :: string
  copySize :: int
  partSize :: int
  uploadId :: string
  doneParts :: "done_part list"

text \<open>
  \<open>sourceData\<close>. The caller may leave the offsets out (\<open>'a = int option\<close>); after
  \<open>multipartUploadCopy\<close> has defaulted them they are numbers (\<open>'a = int\<close>).
\<close>

record 'a source_data =
  sourceKey :: string
  sourceBucketName :: string
  startOffset :: 'a
  endOffset :: 'a

text \<open>
  \<open>options\<close>. The progress callback may raise (\<open>Some\<close> error). The option \<open>partSize\<close> is
  the field \<open>opt_partSize\<close>, as the checkpoint has a field of that name.
\<close>

record options =
  opt_partSize :: "int option"
  parallel :: "int option"
  opt_checkpoint :: "checkpoint option"
  progress :: "(rat \<Rightarrow> checkpoint \<Rightarrow> res \<Rightarrow> err option) option"

text \<open>\<open>a || d\<close> on a number that may be undefined: \<open>undefined\<close> and \<open>0\<close> are falsy.\<close>

definition js_or :: "int option \<Rightarrow> int \<Rightarrow> int" where
  "js_or a d = (case a of None \<Rightarrow> d | Some v \<Rightarrow> if v = 0 then d else v)"

definition truthy :: "int option \<Rightarrow> bool" where
  "truthy a = (case a of None \<Rightarrow> False | Some v \<Rightarrow> v \<noteq> 0)"

subsection \<open>The client and its collaborators\<close>

text \<open>
  Every call that leaves the core is logged: the head request, the initiation of the
  upload, a part copy (target name, upload id, part number, first and last byte of the
  range, source bucket and key), a call of the progress callback and the completion.
\<close>

datatype event =
    HeadReq string string
  | InitReq string
  | PartCopyReq string string int "num \<times> num" string string
  | ProgressCall rat checkpoint res
  | CompleteReq string string "done_part list"

text \<open>
  The client: its current bucket, its cancel flag, the log of the calls issued so far,
  and the array that \<open>checkpoint.doneParts\<close> refers to, which the part jobs share and
  push to.
\<close>

record state =
  bucket :: string
  cancelFlag :: bool
  trace :: "event list"
  done_array :: "done_part list"

text \<open>
  The collaborators, none of them in this file, are parameters: the answers of the remote
  operations (\<open>head\<close> gives the \<open>content-length\<close> of the source, as a number; the answer to
  a part-copy request is given by the part number, as a run requests a part at most once),
  \<open>_getPartSize\<close>, \<open>checkBrowserAndVersion('Internet Explorer', '10')\<close>, the calls during
  which the caller requests cancellation (\<open>cancel()\<close> can only run while the copy is
  suspended in a call), and the order in which the pool's running jobs complete.
\<close>

record env =
  head :: "string \<Rightarrow> string \<Rightarrow> err + int"
  initMultipartUpload :: "string \<Rightarrow> err + string \<times> res"
  request :: "int \<Rightarrow> err + res"
  completeMultipartUpload :: "string \<Rightarrow> string \<Rightarrow> done_part list \<Rightarrow> err + res"
  getPartSize :: "int \<Rightarrow> int option \<Rightarrow> int"
  isIE10 :: bool
  cancelDuring :: "event \<Rightarrow> bool"
  picks :: "nat list"

text \<open>A call is issued, and later its answer arrives; in between the copy is suspended.\<close>

definition issue :: "state \<Rightarrow> event \<Rightarrow> state" where
  "issue s ev = s\<lparr>trace := trace s @ [ev]\<rparr>"

definition arrive :: "env \<Rightarrow> state \<Rightarrow> event \<Rightarrow> state" where
  "arrive E s ev = s\<lparr>cancelFlag := cancelFlag s \<or> cancelDuring E ev\<rparr>"

definition ext_call :: "env \<Rightarrow> state \<Rightarrow> event \<Rightarrow> state" where
  "ext_call E s ev = arrive E (issue s ev) ev"

text \<open>
  Modelled from the spec: \<open>resetCancelFlag\<close>, \<open>isCancel\<close>, \<open>getBucket\<close> and \<open>setBucket\<close>
  are methods of the client that this file does not hold. The cancellation flag is a
  boolean of the session that the caller sets; the bucket is the side state that the
  metadata fetch switches.
\<close>

definition resetCancelFlag :: "state \<Rightarrow> state" where
  "resetCancelFlag s = s\<lparr>cancelFlag := False\<rparr>"

definition isCancel :: "state \<Rightarrow> bool" where
  "isCancel s = cancelFlag s"

definition getBucket :: "state \<Rightarrow> string" where
  "getBucket s = bucket s"

definition setBucket :: "state \<Rightarrow> string \<Rightarrow> state" where
  "setBucket s b = s\<lparr>bucket := b\<rparr>"

subsection \<open>\<open>_getObjectMeta\<close>\<close>

definition getObjectMeta :: "env \<Rightarrow> state \<Rightarrow> string \<Rightarrow> string \<Rightarrow> (err + int) \<times> state" where
  "getObjectMeta E s b nm =
     (let currentBucket = getBucket s;
          s1 = setBucket s b;
          s2 = ext_call E s1 (HeadReq (getBucket s1) nm)
      in case head E (getBucket s1) nm of
           Inl e \<Rightarrow> (Inl e, s2)
         | Inr d \<Rightarrow> (Inr d, setBucket s2 currentBucket))"

subsection \<open>\<open>uploadPartCopy\<close>\<close>

record part_copy_result =
  pc_name :: string
  pc_etag :: string
  pc_res :: res

text \<open>
  \<open>uploadPartCopy\<close> suspends once, in \<open>yield this.request(params)\<close>: the part before it
  sends the request, the part after it receives the answer. The headers of the request (the
  copy source, the range and \<open>options.copyheaders\<close>) are fixed by the logged arguments and
  the options, and are not modelled further.
\<close>

definition uploadPartCopy_send ::
  "state \<Rightarrow> string \<Rightarrow> string \<Rightarrow> int \<Rightarrow> num \<times> num \<Rightarrow> int source_data \<Rightarrow> state" where
  "uploadPartCopy_send s nm uid partNo rng src =
     issue s (PartCopyReq nm uid partNo rng (sourceBucketName src) (sourceKey src))"

definition uploadPartCopy_recv ::
  "env \<Rightarrow> state \<Rightarrow> string \<Rightarrow> string \<Rightarrow> int \<Rightarrow> num \<times> num \<Rightarrow> int source_data
     \<Rightarrow> (err + part_copy_result) \<times> state" where
  "uploadPartCopy_recv E s nm uid partNo rng src =
     (let s' = arrive E s (PartCopyReq nm uid partNo rng (sourceBucketName src) (sourceKey src))
      in case request E partNo of
           Inl e \<Rightarrow> (Inl e, s')
         | Inr r \<Rightarrow> (Inr \<lparr>pc_name = nm, pc_etag = headers_etag r, pc_res = r\<rparr>, s'))"

definition uploadPartCopy ::
  "env \<Rightarrow> state \<Rightarrow> string \<Rightarrow> string \<Rightarrow> int \<Rightarrow> num \<times> num \<Rightarrow> int source_data
     \<Rightarrow> (err + part_copy_result) \<times> state" where
  "uploadPartCopy E s nm uid partNo rng src =
     uploadPartCopy_recv E (uploadPartCopy_send s nm uid partNo rng src) nm uid partNo rng src"

subsection \<open>The part job of \<open>_resumeMultipartCopy\<close>\<close>

text \<open>\<open>xs[i]\<close> on an array: \<open>undefined\<close> out of range.\<close>

definition nth_opt :: "'a list \<Rightarrow> int \<Rightarrow> 'a option" where
  "nth_opt xs i = (if 0 \<le> i \<and> i < int (length xs) then Some (xs ! nat i) else None)"

text \<open>Reading a property of \<open>undefined\<close>, such as \<open>pi.start\<close> of an undefined \<open>pi\<close>.\<close>

definition undefined_error :: err where
  "undefined_error =
     \<lparr>ename = ''TypeError'', message = ''Cannot read properties of undefined'', partNum = None\<rparr>"

text \<open>The range of a part, from \<open>`${pi.start}-${pi.end - 1}`\<close>: its first and last byte.\<close>

definition range_of :: "part_off \<Rightarrow> num \<times> num" where
  "range_of po = (start po, js_add (end_off po) (- 1))"

text \<open>The \<open>catch\<close> of the job: \<open>err.partNum = partNo; throw err\<close>.\<close>

definition catch_partNum :: "int \<Rightarrow> err \<Rightarrow> err" where
  "catch_partNum partNo e = e\<lparr>partNum := Some partNo\<rparr>"

text \<open>The checkpoint object as the progress callback sees it.\<close>

definition checkpoint_of :: "checkpoint \<Rightarrow> state \<Rightarrow> checkpoint" where
  "checkpoint_of ck s = ck\<lparr>doneParts := done_array s\<rparr>"

datatype job_start = Started | Skipped | Failed err

text \<open>
  \<open>uploadPartJob\<close> up to its first suspension: the cancel check, the range of the part
  and the request of \<open>uploadPartCopy\<close>.
\<close>

definition uploadPartJob_start ::
  "checkpoint \<Rightarrow> part_off list \<Rightarrow> int source_data \<Rightarrow> int \<Rightarrow> state \<Rightarrow> job_start \<times> state" where
  "uploadPartJob_start ck partOffs src partNo s =
     (if \<not> isCancel s then
        (case nth_opt partOffs (partNo - 1) of
           None \<Rightarrow> (Failed (catch_partNum partNo undefined_error), s)
         | Some po \<Rightarrow>
             (Started,
              uploadPartCopy_send s (name ck) (uploadId ck) partNo (range_of po) src))
      else (Skipped, s))"

text \<open>
  \<open>uploadPartJob\<close> from the answer of the part copy on: the second cancel check, the push
  to \<open>doneParts\<close> and the progress callback. The result is the error the job throws, if
  any. A job without a part has sent no request and has nothing to receive.
\<close>

definition uploadPartJob_finish ::
  "env \<Rightarrow> options \<Rightarrow> checkpoint \<Rightarrow> part_off list \<Rightarrow> int source_data \<Rightarrow> int \<Rightarrow> state
     \<Rightarrow> err option \<times> state" where
  "uploadPartJob_finish E opts ck partOffs src partNo s =
     (case nth_opt partOffs (partNo - 1) of
        None \<Rightarrow> (None, s)
      | Some po \<Rightarrow>
          (case uploadPartCopy_recv E s (name ck) (uploadId ck) partNo (range_of po) src of
             (Inl e, s1) \<Rightarrow> (Some (catch_partNum partNo e), s1)
           | (Inr result, s1) \<Rightarrow>
               if \<not> isCancel s1 then
                 (let s2 = s1\<lparr>done_array := done_array s1 @
                              [\<lparr>number = partNo, etag = headers_etag (pc_res result)\<rparr>]\<rparr>
                  in case progress opts of
                       None \<Rightarrow> (None, s2)
                     | Some f \<Rightarrow>
                         (let ratio = of_nat (length (done_array s2)) / of_int (int (length partOffs));
                              s3 = ext_call E s2 (ProgressCall ratio (checkpoint_of ck s2) (pc_res result))
                          in case f ratio (checkpoint_of ck s2) (pc_res result) of
                               Some e \<Rightarrow> (Some (catch_partNum partNo e), s3)
                             | None \<Rightarrow> (None, s3)))
               else (None, s1)))"

text \<open>The whole job, as the sequential loop runs it.\<close>

definition uploadPartJob ::
  "env \<Rightarrow> options \<Rightarrow> checkpoint \<Rightarrow> part_off list \<Rightarrow> int source_data \<Rightarrow> int \<Rightarrow> state
     \<Rightarrow> err option \<times> state" where
  "uploadPartJob E opts ck partOffs src partNo s =
     (case uploadPartJob_start ck partOffs src partNo s of
        (Started, s1) \<Rightarrow> uploadPartJob_finish E opts ck partOffs src partNo s1
      | (Skipped, s1) \<Rightarrow> (None, s1)
      | (Failed e, s1) \<Rightarrow> (Some e, s1))"

subsection \<open>The job pool\<close>

text \<open>
  Modelled from the spec: \<open>_thunkPool\<close> is not in this file. The pool runs up to
  \<open>maxParallel\<close> jobs concurrently; when one finishes, the next queued job, if any,
  starts. It collects all job outcomes and does not abort on the first error. A job runs
  from its start to its suspension in the part-copy request (\<open>js\<close>) and, when the answer
  arrives, to its end (\<open>jf\<close>). Which running job completes next is the environment's
  choice (\<open>picks\<close>). The loop returns the errors with their jobs, in the order of
  completion.
\<close>

function thunkPool_loop ::
  "(int \<Rightarrow> state \<Rightarrow> job_start \<times> state) \<Rightarrow> (int \<Rightarrow> state \<Rightarrow> err option \<times> state) \<Rightarrow> int \<Rightarrow>
   nat list \<Rightarrow> int list \<Rightarrow> int list \<Rightarrow> (int \<times> err) list \<Rightarrow> state \<Rightarrow> (int \<times> err) list \<times> state" where
  "thunkPool_loop js jf maxParallel pks queue running errs s =
     (if queue \<noteq> [] \<and> int (length running) < maxParallel then
        (case js (hd queue) s of
           (Started, s1) \<Rightarrow>
             thunkPool_loop js jf maxParallel pks (tl queue) (running @ [hd queue]) errs s1
         | (Skipped, s1) \<Rightarrow>
             thunkPool_loop js jf maxParallel pks (tl queue) running errs s1
         | (Failed e, s1) \<Rightarrow>
             thunkPool_loop js jf maxParallel pks (tl queue) running (errs @ [(hd queue, e)]) s1)
      else if running = [] then (errs, s)
      else
        (let k = (case pks of [] \<Rightarrow> 0 | x # _ \<Rightarrow> x mod length running);
             p = running ! k
         in case jf p s of
              (None, s1) \<Rightarrow>
                thunkPool_loop js jf maxParallel (tl pks) queue
                  (take k running @ drop (Suc k) running) errs s1
            | (Some e, s1) \<Rightarrow>
                thunkPool_loop js jf maxParallel (tl pks) queue
                  (take k running @ drop (Suc k) running) (errs @ [(p, e)]) s1))"
  by pat_completeness auto
termination
proof (relation "measure (\<lambda>(js, jf, maxParallel, pks, queue, running, errs, s).
                            2 * length queue + length running)", goal_cases)
  case 1
  show ?case by simp
next
  case (2 js jf maxParallel pks queue running errs s x y)
  then show ?case by (cases queue) auto
next
  case (3 js jf maxParallel pks queue running errs s x y)
  then show ?case by (cases queue) auto
next
  case (4 js jf maxParallel pks queue running errs s x y e)
  then show ?case by (cases queue) auto
next
  case (5 js jf maxParallel pks queue running errs s k p x y)
  then have "k < length running" by (auto split: list.splits)
  then show ?case by simp
next
  case (6 js jf maxParallel pks queue running errs s k p x y e)
  then have "k < length running" by (auto split: list.splits)
  then show ?case by simp
qed

declare thunkPool_loop.simps [simp del]

text \<open>
  Modelled from the spec: the result of \<open>_thunkPool\<close> is a sequence of errors-or-nil, one
  per job, in job order: the entry of a job is its error, or nil (\<open>None\<close>) when the job
  ended without one.
\<close>

definition thunkPool ::
  "(int \<Rightarrow> state \<Rightarrow> job_start \<times> state) \<Rightarrow> (int \<Rightarrow> state \<Rightarrow> err option \<times> state) \<Rightarrow> nat list \<Rightarrow>
   int list \<Rightarrow> int \<Rightarrow> state \<Rightarrow> err option list \<times> state" where
  "thunkPool js jf pks jobs maxParallel s =
     (case thunkPool_loop js jf maxParallel pks jobs [] [] s of
        (errs, s1) \<Rightarrow> (map (map_of errs) jobs, s1))"

subsection \<open>\<open>_resumeMultipartCopy\<close>\<close>

text \<open>
  The sequential loop over \<open>todo\<close>: the cancel check before each job; an error of a job
  leaves the loop at once.
\<close>

fun sequential_loop ::
  "env \<Rightarrow> options \<Rightarrow> checkpoint \<Rightarrow> part_off list \<Rightarrow> int source_data \<Rightarrow> int list \<Rightarrow> state
     \<Rightarrow> thrown option \<times> state" where
  "sequential_loop E opts ck partOffs src [] s = (None, s)"
| "sequential_loop E opts ck partOffs src (p # todo) s =
     (if isCancel s then (Some CancelEvent, s)
      else (case uploadPartJob E opts ck partOffs src p s of
              (Some e, s1) \<Rightarrow> (Some (Thrown e), s1)
            | (None, s1) \<Rightarrow> sequential_loop E opts ck partOffs src todo s1))"

text \<open>
  What the parallel branch does with \<open>errors[0]\<close>, the first entry of the pool's result: an
  error gets the message and is thrown; on a nil entry \<open>err.toString()\<close> throws.
\<close>

definition failed_parts_error :: "err \<Rightarrow> err" where
  "failed_parts_error e =
     e\<lparr>message := ''Failed to copy some parts with error: '' @ toString e @ '' part_num: '' @
                    show_partNum (partNum e)\<rparr>"

definition throw_first :: "err option \<Rightarrow> thrown" where
  "throw_first entry =
     (case entry of Some e \<Rightarrow> Thrown (failed_parts_error e) | None \<Rightarrow> Thrown undefined_error)"

text \<open>The last line: \<open>completeMultipartUpload(name, uploadId, doneParts, options)\<close>.\<close>

definition complete_call :: "env \<Rightarrow> checkpoint \<Rightarrow> state \<Rightarrow> (thrown + res) option \<times> state" where
  "complete_call E ck s =
     (let s1 = ext_call E s (CompleteReq (name ck) (uploadId ck) (done_array s))
      in case completeMultipartUpload E (name ck) (uploadId ck) (done_array s) of
           Inl e \<Rightarrow> (Some (Inl (Thrown e)), s1)
         | Inr r \<Rightarrow> (Some (Inr r), s1))"

definition todo_parts :: "checkpoint \<Rightarrow> int \<Rightarrow> int list" where
  "todo_parts ck numParts =
     (let all = [1..numParts];
          done = map number (doneParts ck)
      in filter (\<lambda>p. p \<notin> set done) all)"

text \<open>
  \<open>_resumeMultipartCopy\<close>. The result is what the function returns or throws, with the
  client as it leaves it; it is \<open>None\<close> when the function never returns, which is when
  the part planner does not. The array of the checkpoint's \<open>doneParts\<close> is the one the jobs
  push to.
\<close>

definition resumeMultipartCopy ::
  "env \<Rightarrow> state \<Rightarrow> checkpoint \<Rightarrow> int source_data \<Rightarrow> options \<Rightarrow> (thrown + res) option \<times> state" where
  "resumeMultipartCopy E s0 ck src opts =
     (let s = s0\<lparr>done_array := doneParts ck\<rparr>
      in if isCancel s then (Some (Inl CancelEvent), s)
         else
           (case divideMultipartCopyParts (copySize ck) (partSize ck) (startOffset src) of
              None \<Rightarrow> (None, s)
            | Some partOffs \<Rightarrow>
                (let numParts = int (length partOffs);
                     todo = todo_parts ck numParts;
                     defaultParallel = 5;
                     par = js_or (parallel opts) defaultParallel
                 in if isIE10 E \<or> par = 1 then
                      (case sequential_loop E opts ck partOffs src todo s of
                         (Some t, s1) \<Rightarrow> (Some (Inl t), s1)
                       | (None, s1) \<Rightarrow> complete_call E ck s1)
                    else
                      (case thunkPool (uploadPartJob_start ck partOffs src)
                              (uploadPartJob_finish E opts ck partOffs src) (picks E) todo par s of
                         (errors, s1) \<Rightarrow>
                           if isCancel s1 then (Some (Inl CancelEvent), s1)
                           else if 0 < length errors then (Some (Inl (throw_first (hd errors))), s1)
                           else complete_call E ck s1))))"

subsection \<open>\<open>multipartUploadCopy\<close>\<close>

definition minPartSize :: int where
  "minPartSize = 100 * 1024"

text \<open>The fresh start: from the validation to the first checkpoint and its resumption.\<close>

definition fresh_copy ::
  "env \<Rightarrow> state \<Rightarrow> string \<Rightarrow> int source_data \<Rightarrow> options \<Rightarrow> (thrown + res) option \<times> state" where
  "fresh_copy E s1 nm src opts =
     (let cs = endOffset src - startOffset src
      in if cs < minPartSize then
           (Some (Inl (Thrown (new_Error (''copySize must not be smaller than '' @
                                         show_int minPartSize)))), s1)
         else if truthy (opt_partSize opts) \<and> the (opt_partSize opts) < minPartSize then
           (Some (Inl (Thrown (new_Error (''partSize must not be smaller than '' @
                                         show_int minPartSize)))), s1)
         else
           (let s2 = ext_call E s1 (InitReq nm)
            in case initMultipartUpload E nm of
                 Inl e \<Rightarrow> (Some (Inl (Thrown e)), s2)
               | Inr (uid, r) \<Rightarrow>
                   (let ps = getPartSize E cs (opt_partSize opts);
                        ck = \<lparr>name = nm, copySize = cs, partSize = ps,
                              uploadId = uid, doneParts = []\<rparr>
                    in case progress opts of
                         None \<Rightarrow> resumeMultipartCopy E s2 ck src opts
                       | Some f \<Rightarrow>
                           (let s3 = ext_call E s2 (ProgressCall 0 ck r)
                            in case f 0 ck r of
                                 Some e \<Rightarrow> (Some (Inl (Thrown e)), s3)
                               | None \<Rightarrow> resumeMultipartCopy E s3 ck src opts))))"

definition multipartUploadCopy ::
  "env \<Rightarrow> state \<Rightarrow> string \<Rightarrow> int option source_data \<Rightarrow> options
     \<Rightarrow> (thrown + res) option \<times> state" where
  "multipartUploadCopy E s0 nm sourceData opts =
     (let s = resetCancelFlag s0
      in case getObjectMeta E s (sourceBucketName sourceData) (sourceKey sourceData) of
           (Inl e, s1) \<Rightarrow> (Some (Inl (Thrown e)), s1)
         | (Inr fileSize, s1) \<Rightarrow>
             (let src = \<lparr>sourceKey = sourceKey sourceData,
                         sourceBucketName = sourceBucketName sourceData,
                         startOffset = js_or (startOffset sourceData) 0,
                         endOffset = js_or (endOffset sourceData) fileSize\<rparr>
              in case opt_checkpoint opts of
                   Some ck \<Rightarrow>
                     if uploadId ck \<noteq> [] then resumeMultipartCopy E s1 ck src opts
                     else fresh_copy E s1 nm src opts
                 | None \<Rightarrow> fresh_copy E s1 nm src opts))"

subsection \<open>An example environment\<close>

text \<open>
  Every remote operation succeeds, the source has 500000 bytes, nobody cancels; used to run
  the functions on concrete inputs.
\<close>

definition ok_res :: "string \<Rightarrow> res" where
  "ok_res t = \<lparr>status = 200, headers_etag = t\<rparr>"

definition demo_env :: env where
  "demo_env =
     \<lparr>head = (\<lambda>b k. Inr 500000),
      initMultipartUpload = (\<lambda>n. Inr (''uid'', ok_res [])),
      request = (\<lambda>p. Inr (ok_res (show_int p))),
      completeMultipartUpload = (\<lambda>n u ps. Inr (ok_res ''final'')),
      getPartSize = (\<lambda>cs p. js_or p (1024 * 1024)),
      isIE10 = False,
      cancelDuring = (\<lambda>ev. False),
      picks = []\<rparr>"

definition demo_state :: state where
  "demo_state = \<lparr>bucket = ''dst'', cancelFlag = False, trace = [], done_array = []\<rparr>"

definition demo_source :: "int option \<Rightarrow> int option \<Rightarrow> int option source_data" where
  "demo_source a b =
     \<lparr>sourceKey = ''key'', sourceBucketName = ''src'', startOffset = a, endOffset = b\<rparr>"

definition demo_options :: options where
  "demo_options =
     \<lparr>opt_partSize = None, parallel = None, opt_checkpoint = None, progress = None\<rparr>"

subsection \<open>Notions used to state the properties\<close>

text \<open>
  The exact plan: \<open>ceil_div a b\<close> is the least integer not below \<open>a / b\<close> (for \<open>0 < b\<close>),
  \<open>part_at\<close> is the part of index \<open>i\<close> computed without rounding, and \<open>bytes_of\<close> is the
  set of the bytes of a part with finite bounds.
\<close>

definition ceil_div :: "int \<Rightarrow> int \<Rightarrow> int" where
  "ceil_div a b = - ((- a) div b)"

definition part_at :: "int \<Rightarrow> int \<Rightarrow> int \<Rightarrow> int \<Rightarrow> part_off" where
  "part_at cs psz off i =
     \<lparr>start = Num (psz * i + off), end_off = Num (min (psz * i + off + psz) (cs + off))\<rparr>"

definition bytes_of :: "part_off \<Rightarrow> int set" where
  "bytes_of po = (case (start po, end_off po) of (Num a, Num b) \<Rightarrow> {a ..< b} | _ \<Rightarrow> {})"

text \<open>
  The client after a head request that returned: \<open>resetCancelFlag\<close> has cleared the flag,
  the caller may have set it again during the request, the bucket is restored.
\<close>

definition after_head :: "env \<Rightarrow> state \<Rightarrow> 'a source_data \<Rightarrow> state" where
  "after_head E s sd =
     s\<lparr>cancelFlag := cancelDuring E (HeadReq (sourceBucketName sd) (sourceKey sd)),
       trace := trace s @ [HeadReq (sourceBucketName sd) (sourceKey sd)]\<rparr>"

text \<open>
  \<open>sourceData\<close> after the two defaulting assignments of \<open>multipartUploadCopy\<close>, \<open>d\<close> being
  the size that the head request reported.
\<close>

definition defaulted :: "int option source_data \<Rightarrow> int \<Rightarrow> int source_data" where
  "defaulted sd d =
     \<lparr>sourceKey = sourceKey sd, sourceBucketName = sourceBucketName sd,
      startOffset = js_or (startOffset sd) 0, endOffset = js_or (endOffset sd) d\<rparr>"

text \<open>
The two errors of the validation.
\<close>

definition copySize_error :: thrown where
  "copySize_error = Thrown (new_Error ''copySize must not be smaller than 102400'')"

definition partSize_error :: thrown where
  "partSize_error = Thrown (new_Error ''partSize must not be smaller than 102400'')"

text \<open>
  A fresh invocation: no checkpoint, or a checkpoint whose \<open>uploadId\<close> is falsy.
\<close>

definition is_fresh :: "options \<Rightarrow> bool" where
  "is_fresh opts = (case opt_checkpoint opts of None \<Rightarrow> True | Some ck \<Rightarrow> uploadId ck = [])"

text \<open>
More example data: a checkpoint of the object \<open>obj\<close> and a defaulted source range.
\<close>

definition demo_checkpoint :: "int \<Rightarrow> int \<Rightarrow> done_part list \<Rightarrow> checkpoint" where
  "demo_checkpoint cs ps ds =
     \<lparr>name = ''obj'', copySize = cs, partSize = ps, uploadId = ''uid'', doneParts = ds\<rparr>"

definition demo_range :: "int source_data" where
  "demo_range = \<lparr>sourceKey = ''key'', sourceBucketName = ''src'', startOffset = 0, endOffset = 500000\<rparr>"

subsection \<open>Notions used to state what a run of the jobs leaves behind\<close>

text \<open>The part number of a part-copy request and the ratio of a progress call in the log.\<close>

fun part_copy_no :: "event \<Rightarrow> int option" where
  "part_copy_no (PartCopyReq nm uid partNo rng b k) = Some partNo"
| "part_copy_no ev = None"

fun progress_ratio :: "event \<Rightarrow> rat option" where
  "progress_ratio (ProgressCall q c x) = Some q"
| "progress_ratio ev = None"

definition ratios_ok :: "event list \<Rightarrow> bool" where
  "ratios_ok tr = (\<forall>ev \<in> set tr. \<forall>q. progress_ratio ev = Some q \<longrightarrow> 0 \<le> q \<and> q \<le> 1)"

text \<open>The remote copy of part \<open>p\<close> succeeds, and the entry it then adds to \<open>doneParts\<close>.\<close>

definition copied :: "env \<Rightarrow> int \<Rightarrow> bool" where
  "copied E p = (\<exists>r. request E p = Inr r)"




text \<open>
  The entries of the checkpoint's \<open>doneParts\<close> are parts of a plan of \<open>N\<close> parts, each at
  most once.
\<close>

definition done_within_plan :: "checkpoint \<Rightarrow> nat \<Rightarrow> bool" where
  "done_within_plan ck N =
     (distinct (map number (doneParts ck))
      \<and> (\<forall>d \<in> set (doneParts ck). 1 \<le> number d \<and> number d \<le> int N))"

text \<open>
  Counting: the entries of \<open>doneParts\<close> and the jobs still to finish are no more than the
  parts, and every ratio reported so far is between 0 and 1.
\<close>

definition inv_ratio :: "nat \<Rightarrow> event list \<Rightarrow> int list \<Rightarrow> int list \<Rightarrow> state \<Rightarrow> bool" where
  "inv_ratio N T0 queue running t =
     (length (done_array t) + length queue + length running \<le> N
      \<and> (\<exists>tr. trace t = T0 @ tr \<and> ratios_ok tr))"

text \<open>
  A run in brief: the result, the part numbers requested, the ratios reported and the part
  numbers in \<open>doneParts\<close>, in their order.
\<close>

definition summary ::
  "(thrown + res) option \<times> state \<Rightarrow> (thrown + res) option \<times> int list \<times> rat list \<times> int list" where
  "summary run =
     (case run of (r, s) \<Rightarrow>
        (r, List.map_filter part_copy_no (trace s), List.map_filter progress_ratio (trace s),
         map number (done_array s)))"



definition demo_sequential :: options where
  "demo_sequential = demo_options\<lparr>parallel := Some 1\<rparr>"

definition demo_two_parts :: "done_part list \<Rightarrow> options" where
  "demo_two_parts ds =
     demo_options\<lparr>parallel := Some 1, progress := Some (\<lambda>q c x. None),
                  opt_checkpoint := Some (demo_checkpoint 204800 102400 ds)\<rparr>"

definition demo_reporting :: options where
  "demo_reporting =
     demo_options\<lparr>opt_partSize := Some 102400, parallel := Some 1, progress := Some (\<lambda>q c x. None)\<rparr>"

section \<open>Rounding to a double\<close>

lemma bit_length_bounds:
  "0 < n \<Longrightarrow> 2 ^ (bit_length n - 1) \<le> n \<and> n < 2 ^ bit_length n"
proof (induction n rule: bit_length.induct)
  case (1 n)
  show ?case
  proof (cases "n div 2 = 0")
    case True
    then have "n = 1" using 1(2) by (cases n) auto
    then show ?thesis
      by (simp add: bit_length.simps[of "Suc 0"] bit_length.simps[of 0])
  next
    case False
    then have h: "2 ^ (bit_length (n div 2) - 1) \<le> n div 2 \<and> n div 2 < 2 ^ bit_length (n div 2)"
      using 1 by simp
    have pos: "0 < bit_length (n div 2)"
      using False by (subst bit_length.simps) simp
    have bl: "bit_length n = Suc (bit_length (n div 2))"
      using 1(2) by (subst bit_length.simps) simp
    have e: "(2::nat) ^ (bit_length n - 1) = 2 * 2 ^ (bit_length (n div 2) - 1)"
      using pos bl by (cases "bit_length (n div 2)") simp_all
    have "2 * 2 ^ (bit_length (n div 2) - 1) \<le> 2 * (n div 2)" using h by simp
    also have "\<dots> \<le> n" by simp
    finally have lo: "2 ^ (bit_length n - 1) \<le> n" using e by simp
    have "n < 2 * (n div 2) + 2" by presburger
    also have "\<dots> \<le> 2 * 2 ^ bit_length (n div 2)" using h by simp
    finally have "n < 2 ^ bit_length n" using bl by simp
    with lo show ?thesis by simp
  qed
qed

lemma bit_length_int:
  fixes x :: int
  assumes "0 < x"
  shows "2 ^ (bit_length (nat x) - 1) \<le> x" and "x < 2 ^ bit_length (nat x)"
proof -
  have xp: "0 < nat x" using assms by simp
  from bit_length_bounds[OF xp]
  have b: "2 ^ (bit_length (nat x) - 1) \<le> nat x" "nat x < 2 ^ bit_length (nat x)" by simp_all
  have "int (2 ^ (bit_length (nat x) - 1)) \<le> int (nat x)" using b(1) by (simp only: of_nat_le_iff)
  then show "2 ^ (bit_length (nat x) - 1) \<le> x" using assms by simp
  have "int (nat x) < int (2 ^ bit_length (nat x))" using b(2) by (simp only: of_nat_less_iff)
  then show "x < 2 ^ bit_length (nat x)" using assms by simp
qed

lemma rhe_div_le:
  assumes "0 < d" "n \<le> t * d"
  shows "rhe_div n d \<le> t"
proof -
  define q where "q = n div d"
  define r where "r = n mod d"
  have n: "n = q * d + r" by (simp add: q_def r_def)
  have r: "0 \<le> r" "r < d" using assms(1) by (simp_all add: r_def)
  have "q * d \<le> t * d" using n r assms(2) by linarith
  then have qt: "q \<le> t" using assms(1) by (simp add: mult_le_cancel_right)
  show ?thesis
  proof (cases "q = t")
    case True
    then have "r = 0" using n r assms(2) by simp
    then show ?thesis using True assms(1) by (simp add: rhe_div_def Let_def q_def[symmetric] r_def[symmetric])
  next
    case False
    then have "q + 1 \<le> t" using qt by simp
    then show ?thesis by (simp add: rhe_div_def Let_def q_def[symmetric] r_def[symmetric])
  qed
qed

lemma rhe_div_ge:
  assumes "0 < d" "t * d \<le> n"
  shows "t \<le> rhe_div n d"
proof -
  define q where "q = n div d"
  define r where "r = n mod d"
  have n: "n = q * d + r" by (simp add: q_def r_def)
  have r: "0 \<le> r" "r < d" using assms(1) by (simp_all add: r_def)
  have "t * d < (q + 1) * d" using n r assms(2) by (simp add: algebra_simps)
  then have "t < q + 1" using assms(1) by (simp add: mult_less_cancel_right)
  then show ?thesis by (simp add: rhe_div_def Let_def q_def[symmetric] r_def[symmetric])
qed

lemma rhe_div_gt:
  assumes "0 < d" "d < 2 * (n - t * d)"
  shows "t + 1 \<le> rhe_div n d"
proof -
  define q where "q = n div d"
  define r where "r = n mod d"
  have n: "n = q * d + r" by (simp add: q_def r_def)
  have r: "0 \<le> r" "r < d" using assms(1) by (simp_all add: r_def)
  have "t * d < (q + 1) * d" using n r assms by (simp add: algebra_simps)
  then have tq: "t \<le> q" using assms(1) by (simp add: mult_less_cancel_right)
  show ?thesis
  proof (cases "q = t")
    case True
    then have "d < 2 * r" using n assms(2) by simp
    then show ?thesis using True by (simp add: rhe_div_def Let_def q_def[symmetric] r_def[symmetric])
  next
    case False
    then have "t + 1 \<le> q" using tq by simp
    then show ?thesis by (simp add: rhe_div_def Let_def q_def[symmetric] r_def[symmetric])
  qed
qed

lemma js_round_exact: "- exact_bound \<le> x \<Longrightarrow> x \<le> exact_bound \<Longrightarrow> js_round x = Num x"
  by (simp add: js_round_def round_nat_def js_neg_def)

lemma round_nat_large:
  assumes "exact_bound < x"
  shows "round_nat x = PosInfinity \<or> (\<exists>y. round_nat x = Num y \<and> exact_bound \<le> y)"
proof -
  define bl where "bl = bit_length (nat x)"
  have x53: "2 ^ 53 < x" using assms by (simp only: exact_bound_def)
  have xp: "0 < x" using x53 by (smt (verit) zero_less_power)
  from bit_length_int[OF xp]
  have b: "2 ^ (bl - 1) \<le> x" "x < 2 ^ bl" by (simp_all only: bl_def)
  have "(2::int) ^ 53 < 2 ^ bl" using x53 b(2) by linarith
  then have bl: "53 < bl" by (simp only: power_strict_increasing_iff)
  define u :: int where "u = 2 ^ (bl - 53)"
  have up: "0 < u" by (simp add: u_def)
  have "(2::int) ^ 52 * u = 2 ^ (52 + (bl - 53))" by (simp add: u_def power_add)
  also have "52 + (bl - 53) = bl - 1" using bl by simp
  finally have e: "(2::int) ^ 52 * u = 2 ^ (bl - 1)" .
  have "2 ^ 52 * u \<le> x" using e b(1) by linarith
  then have "2 ^ 52 \<le> rhe_div x u" using up by (rule rhe_div_ge[rotated])
  then have "u * 2 ^ 52 \<le> u * rhe_div x u" using up by simp
  moreover have "(2::int) ^ 53 \<le> 2 ^ (bl - 1)" using bl by (intro power_increasing) simp_all
  ultimately have "2 ^ 53 \<le> u * rhe_div x u" using e by (simp only: mult.commute)
  then have "exact_bound \<le> u * rhe_div x u" by (simp only: exact_bound_def)
  then show ?thesis
    using assms by (simp add: round_nat_def Let_def bl_def[symmetric] u_def[symmetric])
qed

lemma ceil_div_bounds:
  assumes "0 < b" "0 < a"
  shows "0 < ceil_div a b" and "(ceil_div a b - 1) * b < a" and "a \<le> ceil_div a b * b"
proof -
  define q where "q = (- a) div b"
  have m: "- a = q * b + (- a) mod b" by (simp add: q_def)
  have r: "0 \<le> (- a) mod b" "(- a) mod b < b" using assms by simp_all
  have c: "ceil_div a b = - q" by (simp add: ceil_div_def q_def)
  show "a \<le> ceil_div a b * b" using m r c by (simp add: algebra_simps) 
  show "(ceil_div a b - 1) * b < a" using m r c by (simp add: algebra_simps)
  have "q < 0"
  proof (rule ccontr)
    assume "\<not> q < 0"
    then have "0 \<le> q * b" using assms by simp
    then show False using m r assms by simp
  qed
  then show "0 < ceil_div a b" using c by simp
qed

lemma ceil_scaled_unique:
  assumes "0 < N" "(c - 1) * N < m" "m \<le> c * N"
  shows "- ((- m) div N) = (c::int)"
proof -
  have "- m = N * (- c) + (c * N - m)" by (simp add: algebra_simps)
  moreover have "0 \<le> c * N - m" using assms(3) by simp
  moreover have "c * N - m < N" using assms(2) by (simp add: algebra_simps)
  ultimately have "(- m) div N = - c" by (rule int_div_pos_eq)
  then show ?thesis by simp
qed

text \<open>The rounded quotient at a non-positive exponent.\<close>

lemma quot_round_ceil:
  assumes A: "0 < A" and B: "0 < B" and N: "0 < N"
    and lo: "B \<le> A * N" and up: "B < 2 * N \<or> A \<le> B"
  shows "- ((- rhe_div (A * N) B) div N) = ceil_div A B"
proof -
  define c where "c = ceil_div A B"
  have c: "0 < c" "(c - 1) * B < A" "A \<le> c * B"
    using ceil_div_bounds[OF B A] by (simp_all add: c_def)
  have "A * N \<le> (c * N) * B"
  proof -
    have "A * N \<le> (c * B) * N" using c(3) N by (simp add: mult_right_mono)
    then show ?thesis by (simp add: algebra_simps)
  qed
  then have m_up: "rhe_div (A * N) B \<le> c * N" using B by (rule rhe_div_le[rotated])
  have m_lo: "(c - 1) * N < rhe_div (A * N) B"
  proof (cases "B < 2 * N")
    case True
    have "1 \<le> A - (c - 1) * B" using c(2) by simp
    then have "N * 1 \<le> N * (A - (c - 1) * B)" using N by (intro mult_left_mono) simp_all
    then have "B < 2 * (A * N - ((c - 1) * N) * B)" using True by (simp add: algebra_simps)
    then have "(c - 1) * N + 1 \<le> rhe_div (A * N) B" using B by (rule rhe_div_gt[rotated])
    then show ?thesis by simp
  next
    case False
    then have AB: "A \<le> B" using up by simp
    have "c = 1"
    proof (rule ccontr)
      assume "c \<noteq> 1"
      then have "1 \<le> c - 1" using c(1) by simp
      then have "1 * B \<le> (c - 1) * B" using B by (intro mult_right_mono) simp_all
      then show False using c(2) AB by simp
    qed
    moreover have "1 \<le> rhe_div (A * N) B" using B lo by (intro rhe_div_ge) simp_all
    ultimately show ?thesis by simp
  qed
  show ?thesis using ceil_scaled_unique[OF N m_lo m_up] by (simp add: c_def)
qed

lemma sig_round_nonpos: "e \<le> 0 \<Longrightarrow> sig_round A B e = rhe_div (A * 2 ^ nat (- e)) B"
  by (cases "e = 0") (simp_all add: sig_round_def)

lemma ceil_scaled_nonpos: "e \<le> 0 \<Longrightarrow> ceil_scaled v e = - ((- v) div 2 ^ nat (- e))"
  by (cases "e = 0") (simp_all add: ceil_scaled_def)

lemma sig_ge_nonpos: "e \<le> 0 \<Longrightarrow> sig_ge A B e = (2 ^ 52 * B \<le> A * 2 ^ nat (- e))"
  by (cases "e = 0") (simp_all add: sig_ge_def)

lemma quot_exponent_props:
  assumes A: "0 < A" "A < exact_bound" and B: "0 < B" "B < overflow_bound"
  defines "e \<equiv> quot_exponent A B"
  shows "e \<le> 0" and "B \<le> A * 2 ^ nat (- e)" and "B < 2 * 2 ^ nat (- e) \<or> A \<le> B"
proof -
  define la where "la = bit_length (nat A)"
  define lb where "lb = bit_length (nat B)"
  have a: "2 ^ (la - 1) \<le> A" "A < 2 ^ la" using bit_length_int[OF A(1)] by (simp_all only: la_def)
  have b: "2 ^ (lb - 1) \<le> B" "B < 2 ^ lb" using bit_length_int[OF B(1)] by (simp_all only: lb_def)
  have "(2::int) ^ (la - 1) < 2 ^ 53" using a(1) A(2) unfolding exact_bound_def by linarith
  then have la53: "la \<le> 53" by (simp only: power_strict_increasing_iff)
  have la1: "1 \<le> la"
  proof (rule ccontr)
    assume "\<not> 1 \<le> la" then have "la = 0" by simp
    then show False using a(2) A(1) by simp
  qed
  have lb1: "1 \<le> lb"
  proof (rule ccontr)
    assume "\<not> 1 \<le> lb" then have "lb = 0" by simp
    then show False using b(2) B(1) by simp
  qed
  have "(2::int) ^ (lb - 1) < 2 ^ 1024" using b(1) B(2) unfolding overflow_bound_def by linarith
  then have lb1024: "lb \<le> 1024" by (simp only: power_strict_increasing_iff)
  define e0 where "e0 = int la - int lb - 52"
  define e1 where "e1 = (if sig_ge A B e0 then e0 else e0 - 1)"
  have e: "e = max e1 (- 1074)"
    by (simp add: e_def quot_exponent_def Let_def e1_def e0_def la_def lb_def)
  have e0: "e0 \<le> 0" using la53 lb1 by (simp add: e0_def)
  have e1: "e1 \<le> 0" using e0 by (simp add: e1_def)
  show e_le: "e \<le> 0" using e1 e by simp
  have s1: "2 ^ 52 * B \<le> A * 2 ^ nat (- e1)"
  proof (cases "sig_ge A B e0")
    case True
    then show ?thesis using e0 by (simp add: e1_def sig_ge_nonpos)
  next
    case False
    then have e1': "e1 = e0 - 1" by (simp add: e1_def)
    have n: "nat (- e1) = (53 - la) + lb" using la53 la1 lb1 by (simp add: e1' e0_def)
    have "(2::int) ^ (la - 1) * 2 ^ ((53 - la) + lb) = 2 ^ ((la - 1) + ((53 - la) + lb))"
      by (simp only: power_add)
    also have "(la - 1) + ((53 - la) + lb) = 52 + lb" using la53 la1 by simp
    finally have "(2::int) ^ (la - 1) * 2 ^ ((53 - la) + lb) = 2 ^ 52 * 2 ^ lb"
      by (simp only: power_add)
    moreover have "2 ^ (la - 1) * 2 ^ ((53 - la) + lb) \<le> A * (2::int) ^ ((53 - la) + lb)"
      using a(1) by (intro mult_right_mono) simp_all
    moreover have "(2::int) ^ 52 * B \<le> 2 ^ 52 * 2 ^ lb"
      using b(2) by (intro mult_left_mono) simp_all
    ultimately show ?thesis by (simp only: n)
  qed
  show "B \<le> A * 2 ^ nat (- e)"
  proof (cases "- 1074 \<le> e1")
    case True
    then have "e = e1" using e by simp
    moreover have "B \<le> 2 ^ 52 * B" using B(1) by simp
    ultimately show ?thesis using s1 by simp
  next
    case False
    then have ee: "e = - 1074" using e by simp
    have "B < 2 ^ 1024" using B(2) by (simp only: overflow_bound_def)
    also have "(2::int) ^ 1024 \<le> 2 ^ 1074" by (intro power_increasing) simp_all
    also have "\<dots> = 1 * 2 ^ 1074" by simp
    also have "\<dots> \<le> A * 2 ^ 1074" using A(1) by (intro mult_right_mono) simp_all
    finally show ?thesis by (simp only: ee) simp
  qed
  show "B < 2 * 2 ^ nat (- e) \<or> A \<le> B"
  proof (cases "- 1074 \<le> e1")
    case True
    then have ee: "e = e1" using e by simp
    have "A * 2 ^ nat (- e1) < 2 ^ 53 * (2::int) ^ nat (- e1)"
      using A(2) by (simp only: exact_bound_def) (intro mult_strict_right_mono, simp_all)
    then have "2 ^ 52 * B < 2 ^ 53 * (2::int) ^ nat (- e1)" using s1 by linarith
    then have "2 ^ 52 * B < 2 ^ 52 * (2 * (2::int) ^ nat (- e1))" by simp
    then have "B < 2 * (2::int) ^ nat (- e1)" by (simp only: mult_less_cancel_left_pos zero_less_power zero_less_numeral)
    then show ?thesis by (simp only: ee) simp
  next
    case False
    then have "e0 - 1 \<le> e1" "e1 < - 1074" by (simp_all add: e1_def)
    then have "int la < int lb" by (simp add: e0_def)
    then have "la \<le> lb - 1" by simp
    then have "(2::int) ^ la \<le> 2 ^ (lb - 1)" by (intro power_increasing) simp_all
    then have "A \<le> B" using a(2) b(1) by linarith
    then show ?thesis by simp
  qed
qed

lemma js_ceil_div_exact:
  assumes "0 < A" "A < exact_bound" "0 < B" "B < overflow_bound"
  shows "js_ceil_div A B = Num (ceil_div A B)"
proof -
  define e where "e = quot_exponent A B"
  define N :: int where "N = 2 ^ nat (- e)"
  have p: "e \<le> 0" "B \<le> A * N" "B < 2 * N \<or> A \<le> B"
    using quot_exponent_props[OF assms] by (simp_all add: e_def N_def)
  have N: "0 < N" by (simp add: N_def)
  have "ceil_scaled (sig_round A B e) e = - ((- rhe_div (A * N) B) div N)"
    using p(1) by (simp add: sig_round_nonpos ceil_scaled_nonpos N_def)
  also have "\<dots> = ceil_div A B"
    using quot_round_ceil[OF assms(1) assms(3) N p(2) p(3)] .
  finally show ?thesis
    using assms(1) assms(3) by (simp add: js_ceil_div_def Let_def e_def)
qed

section \<open>Part planning: the parts tile the range\<close>

lemma js_min_large:
  assumes "y \<le> exact_bound" "a = PosInfinity \<or> (\<exists>z. a = Num z \<and> exact_bound \<le> z)"
  shows "js_min a (Num y) = Num y"
  using assms by (auto simp: min_def)

lemma part_end_exact:
  assumes "0 \<le> x" "0 \<le> y" "y \<le> exact_bound"
  shows "js_min (js_round x) (Num y) = Num (min x y)"
proof (cases "x \<le> exact_bound")
  case True
  then have "js_round x = Num x" using assms(1) by (simp add: js_round_def round_nat_def)
  then show ?thesis by simp
next
  case False
  then have x: "exact_bound < x" by simp
  have "js_round x = round_nat x" using assms(1) by (simp add: js_round_def)
  then have "js_min (js_round x) (Num y) = Num y"
    using js_min_large[OF assms(3) round_nat_large[OF x]] by simp
  then show ?thesis using x assms(3) by (simp add: min_def)
qed

lemma divide_loop_exact:
  assumes "0 < psz" "0 \<le> off" "0 < cs" "off + cs \<le> exact_bound" "(n - 1) * psz < cs" "0 \<le> i"
  shows "divide_loop n cs psz off i acc = acc @ map (part_at cs psz off) [i..n - 1]"
  using assms
proof (induction n cs psz off i acc rule: divide_loop.induct)
  case (1 n cs psz off i acc)
  show ?case
  proof (cases "i < n")
    case True
    then have u: "[i..n - 1] = i # [i + 1..n - 1]" by (simp add: upto_rec1)
    have "psz * i \<le> psz * (n - 1)" using True 1(2) by (intro mult_left_mono) simp_all
    then have lt: "psz * i < cs" using 1(6) by (simp add: mult.commute)
    have nn: "0 \<le> psz * i" using 1(2) 1(7) by simp
    have eb: "0 \<le> exact_bound" by (simp add: exact_bound_def)
    have m: "js_mul psz i = Num (psz * i)"
      using nn lt 1(3,4,5) eb by (simp add: js_mul_def js_round_exact)
    have s: "js_add (Num (psz * i)) off = Num (psz * i + off)"
      using nn lt 1(3,4,5) eb by (simp add: js_add_def js_round_exact)
    have t: "js_add (Num cs) off = Num (cs + off)"
      using 1(3,4,5) eb by (simp add: js_add_def js_round_exact)
    have e: "js_min (js_add (Num (psz * i + off)) psz) (Num (cs + off)) =
             Num (min (psz * i + off + psz) (cs + off))"
      using part_end_exact[of "psz * i + off + psz" "cs + off"] nn 1(2,3,4,5)
      by (simp add: js_add_def add.commute)
    have ih: "divide_loop n cs psz off (i + 1) (acc @ [part_at cs psz off i]) =
              (acc @ [part_at cs psz off i]) @ map (part_at cs psz off) [i + 1..n - 1]"
      using 1(1)[OF True refl refl] 1(2-7) by (simp add: m s t e part_at_def)
    show ?thesis
      by (subst divide_loop.simps) (simp add: True Let_def m s t e u ih[unfolded part_at_def] part_at_def)
  next
    case False
    then show ?thesis by (subst divide_loop.simps) simp
  qed
qed

lemma ceil_div_ceiling: "0 < b \<Longrightarrow> ceil_div a b = \<lceil>of_int a / (of_int b :: real)\<rceil>"
proof -
  have "\<lfloor>of_int (- a) / (of_int b :: real)\<rfloor> = (- a) div b"
    by (rule floor_divide_of_int_eq)
  then show ?thesis
    by (simp add: ceil_div_def ceiling_def)
qed

lemma divide_parts_exact:
  assumes "0 < cs" "0 < psz" "0 \<le> off" "off + cs < exact_bound" "psz < overflow_bound"
  shows "divideMultipartCopyParts cs psz off = Some (map (part_at cs psz off) [0..ceil_div cs psz - 1])"
proof -
  have c: "cs < exact_bound" using assms(3,4) by simp
  have n: "js_ceil_div cs psz = Num (ceil_div cs psz)"
    using js_ceil_div_exact[OF assms(1) c assms(2) assms(5)] .
  have b: "(ceil_div cs psz - 1) * psz < cs" using ceil_div_bounds[OF assms(2) assms(1)] by simp
  have le: "off + cs \<le> exact_bound" using assms(4) by simp
  show ?thesis
    using divide_loop_exact[OF assms(2) assms(3) assms(1) le b, of 0 "[]"]
    by (simp add: divideMultipartCopyParts_def n)
qed

text \<open>
  C1, as the code has it. For integers \<open>copySize > 0\<close>, \<open>partSize > 0\<close> and \<open>startOffset \<ge> 0\<close>
  with \<open>startOffset + copySize\<close> below \<open>2 ^ 53\<close> (every offset of the range is a safe integer;
  \<open>partSize\<close> is any double), \<open>_divideMultipartCopyParts\<close> returns exactly
  \<open>ceil(copySize / partSize)\<close> parts; part \<open>i\<close> (0-indexed) spans from
  \<open>startOffset + i * partSize\<close> to the minimum of \<open>startOffset + (i + 1) * partSize\<close> and
  \<open>startOffset + copySize\<close> (exclusive); the parts are non-empty, contiguous and pairwise
  disjoint, and their union is the range from \<open>startOffset\<close> to \<open>startOffset + copySize\<close>.
  With 250000, 100000 and 0 the parts are 0 to 100000, 100000 to 200000 and 200000 to 250000.
\<close>

theorem divide_parts_tiling:
  assumes "0 < cs" and "0 < psz" and "0 \<le> off" and "off + cs < 2 ^ 53" and "psz < 2 ^ 1024"
  shows "(\<exists>ps. divideMultipartCopyParts cs psz off = Some ps
      \<and> int (length ps) = \<lceil>of_int cs / (of_int psz :: real)\<rceil>
      \<and> (\<forall>i < length ps.
            start (ps ! i) = Num (off + int i * psz)
          \<and> end_off (ps ! i) = Num (min (off + (int i + 1) * psz) (off + cs))
          \<and> off + int i * psz < min (off + (int i + 1) * psz) (off + cs))
      \<and> (\<forall>i. Suc i < length ps \<longrightarrow> end_off (ps ! i) = start (ps ! Suc i))
      \<and> (\<forall>i j. i < j \<and> j < length ps \<longrightarrow> bytes_of (ps ! i) \<inter> bytes_of (ps ! j) = {})
      \<and> (\<Union>p \<in> set ps. bytes_of p) = {off..<off + cs})
    \<and> divideMultipartCopyParts 250000 100000 0 =
        Some [\<lparr>start = Num 0, end_off = Num 100000\<rparr>, \<lparr>start = Num 100000, end_off = Num 200000\<rparr>,
              \<lparr>start = Num 200000, end_off = Num 250000\<rparr>]"
proof -
  define n where "n = ceil_div cs psz"
  define ps where "ps = map (part_at cs psz off) [0..n - 1]"
  have safe: "off + cs < exact_bound" "psz < overflow_bound"
    using assms(4,5) by (simp_all only: exact_bound_def overflow_bound_def)
  have npos: "0 < n" and nlow: "(n - 1) * psz < cs" and nup: "cs \<le> n * psz"
    using ceil_div_bounds[OF assms(2) assms(1)] by (simp_all add: n_def)
  have len: "length ps = nat n" by (simp add: ps_def)
  have nth: "ps ! i = part_at cs psz off (int i)" if "i < length ps" for i
    using that by (simp add: ps_def)
  have st: "start (ps ! i) = Num (off + int i * psz)" if "i < length ps" for i
    using nth[OF that] by (simp add: part_at_def algebra_simps)
  have en: "end_off (ps ! i) = Num (min (off + (int i + 1) * psz) (off + cs))"
    if "i < length ps" for i
    using nth[OF that] by (simp add: part_at_def algebra_simps)
  have by_of: "bytes_of (ps ! i) = {off + int i * psz ..< min (off + (int i + 1) * psz) (off + cs)}"
    if "i < length ps" for i
    using st[OF that] en[OF that] by (simp add: bytes_of_def)
  have below: "int i * psz < cs" if "i < length ps" for i
  proof -
    have "int i \<le> n - 1" using that len by simp
    then have "int i * psz \<le> (n - 1) * psz"
      using assms(2) by (simp add: mult_right_mono)
    then show ?thesis using nlow by simp
  qed
  have nonempty: "off + int i * psz < min (off + (int i + 1) * psz) (off + cs)" if "i < length ps" for i
    using below[OF that] assms(2) by (simp add: algebra_simps)
  have full: "end_off (ps ! i) = Num (off + (int i + 1) * psz)" if "Suc i < length ps" for i
  proof -
    have i: "i < length ps" using that by simp
    have "(int i + 1) * psz < cs" using below[OF that] by (simp add: algebra_simps)
    then show ?thesis using en[OF i] by simp
  qed
  have contig: "end_off (ps ! i) = start (ps ! Suc i)" if "Suc i < length ps" for i
    using full[OF that] st[OF that] by (simp add: algebra_simps)
  have disj: "bytes_of (ps ! i) \<inter> bytes_of (ps ! j) = {}"
    if "i < j" "j < length ps" for i j
  proof -
    have i: "i < length ps" using that by simp
    have "int i + 1 \<le> int j" using that by simp
    then have "(int i + 1) * psz \<le> int j * psz"
      using assms(2) by (simp add: mult_right_mono)
    then have "min (off + (int i + 1) * psz) (off + cs) \<le> off + int j * psz"
      by simp
    then show ?thesis using by_of[OF i] by_of[OF that(2)] by auto
  qed
  have union: "(\<Union>p \<in> set ps. bytes_of p) = {off..<off + cs}"
  proof (intro equalityI subsetI)
    fix x assume "x \<in> (\<Union>p \<in> set ps. bytes_of p)"
    then obtain i where i: "i < length ps" and "x \<in> bytes_of (ps ! i)"
      by (auto simp: in_set_conv_nth)
    then have x: "off + int i * psz \<le> x" "x < min (off + (int i + 1) * psz) (off + cs)"
      using by_of[OF i] by simp_all
    have "0 \<le> int i * psz" using assms(2) by simp
    then show "x \<in> {off..<off + cs}"
      using x by simp
  next
    fix x assume "x \<in> {off..<off + cs}"
    then have x: "off \<le> x" "x < off + cs" by simp_all
    define q where "q = (x - off) div psz"
    have q0: "0 \<le> q" using x assms(2) by (simp add: q_def pos_imp_zdiv_nonneg_iff)
    have d: "x - off = q * psz + (x - off) mod psz" by (simp add: q_def)
    have r: "0 \<le> (x - off) mod psz" "(x - off) mod psz < psz"
      using assms(2) by simp_all
    have "q * psz \<le> x - off" using d r by linarith
    then have "q * psz < n * psz" using x nup by linarith
    then have qn: "q < n" using assms(2) by (simp add: mult_less_cancel_right)
    then have i: "nat q < length ps" using q0 len by simp
    have "off + int (nat q) * psz \<le> x" using q0 d r by simp
    moreover have "x < min (off + (int (nat q) + 1) * psz) (off + cs)"
      using q0 d r x by (simp add: algebra_simps)
    ultimately have "x \<in> bytes_of (ps ! nat q)" using by_of[OF i] by simp
    then show "x \<in> (\<Union>p \<in> set ps. bytes_of p)"
      using i nth_mem by blast
  qed
  have some: "divideMultipartCopyParts cs psz off = Some ps"
    using divide_parts_exact[OF assms(1) assms(2) assms(3) safe] by (simp add: ps_def n_def)
  have cnt: "int (length ps) = \<lceil>of_int cs / (of_int psz :: real)\<rceil>"
    using len npos ceil_div_ceiling[OF assms(2), of cs] by (simp add: n_def)
  have ex: "divideMultipartCopyParts 250000 100000 0 =
        Some [\<lparr>start = Num 0, end_off = Num 100000\<rparr>, \<lparr>start = Num 100000, end_off = Num 200000\<rparr>,
              \<lparr>start = Num 200000, end_off = Num 250000\<rparr>]"
    by (subst divide_parts_exact)
       (simp_all add: exact_bound_def overflow_bound_def ceil_div_def upto_rec1 part_at_def)
  show ?thesis
    using some cnt st en nonempty contig disj union ex by blast
qed

theorem divide_parts_tiling_witness:
  "(0::int) < 250000 \<and> (0::int) < 100000 \<and> (0::int) \<le> 0 \<and> (0::int) + 250000 < 2 ^ 53
   \<and> (100000::int) < 2 ^ 1024 \<and>
   (\<exists>ps. divideMultipartCopyParts 250000 100000 0 = Some ps
      \<and> int (length ps) = \<lceil>of_int 250000 / (of_int 100000 :: real)\<rceil>
      \<and> (\<Union>p \<in> set ps. bytes_of p) = {0..<0 + 250000})"
proof -
  have h1: "(0::int) < 250000" and h2: "(0::int) < 100000" and h3: "(0::int) \<le> 0"
    and h4: "(0::int) + 250000 < 2 ^ 53" and h5: "(100000::int) < 2 ^ 1024"
    by simp_all
  from divide_parts_tiling[OF h1 h2 h3 h4 h5] h1 h2 h3 h4 h5 show ?thesis
    by blast
qed

text \<open>
  Beyond \<open>2 ^ 53\<close> the planner's sums are rounded. With \<open>copySize = 3\<close>, \<open>partSize = 2\<close> and
  \<open>startOffset = 2 ^ 53 - 1\<close> part 0 ends at \<open>2 ^ 53\<close>, not at \<open>startOffset + partSize\<close>; with
  \<open>copySize = 2\<close>, \<open>partSize = 1\<close> and \<open>startOffset = 2 ^ 53\<close> both parts are empty, and their
  union is not the range of the copy.
\<close>

theorem divide_parts_rounding_counterexample:
  "divideMultipartCopyParts 3 2 9007199254740991 =
     Some [\<lparr>start = Num 9007199254740991, end_off = Num 9007199254740992\<rparr>,
           \<lparr>start = Num 9007199254740992, end_off = Num 9007199254740994\<rparr>]
   \<and> min (9007199254740991 + (0 + 1) * 2) (9007199254740991 + 3) = (9007199254740993 :: int)
   \<and> divideMultipartCopyParts 2 1 9007199254740992 =
     Some [\<lparr>start = Num 9007199254740992, end_off = Num 9007199254740992\<rparr>,
           \<lparr>start = Num 9007199254740992, end_off = Num 9007199254740992\<rparr>]
   \<and> bytes_of \<lparr>start = Num 9007199254740992, end_off = Num 9007199254740992\<rparr> = {}"
proof -
  have n: "js_ceil_div 3 2 = Num 2" "js_ceil_div 2 1 = Num 2"
    by (simp_all add: js_ceil_div_def quot_exponent_def sig_ge_def sig_round_def ceil_scaled_def
        rhe_div_def bit_length.simps Let_def)
  have a: "divideMultipartCopyParts 3 2 9007199254740991 =
     Some [\<lparr>start = Num 9007199254740991, end_off = Num 9007199254740992\<rparr>,
           \<lparr>start = Num 9007199254740992, end_off = Num 9007199254740994\<rparr>]"
    by (simp add: divideMultipartCopyParts_def n divide_loop.simps js_mul_def js_add_def js_round_def
        round_nat_def exact_bound_def overflow_bound_def rhe_div_def bit_length.simps Let_def)
  have b: "divideMultipartCopyParts 2 1 9007199254740992 =
     Some [\<lparr>start = Num 9007199254740992, end_off = Num 9007199254740992\<rparr>,
           \<lparr>start = Num 9007199254740992, end_off = Num 9007199254740992\<rparr>]"
    by (simp add: divideMultipartCopyParts_def n divide_loop.simps js_mul_def js_add_def js_round_def
        round_nat_def exact_bound_def overflow_bound_def rhe_div_def bit_length.simps Let_def)
  show ?thesis using a b by (simp add: bytes_of_def)
qed

section \<open>The metadata fetch\<close>

lemma ext_call_simps [simp]:
  "trace (ext_call E s ev) = trace s @ [ev]"
  "cancelFlag (ext_call E s ev) = (cancelFlag s \<or> cancelDuring E ev)"
  "bucket (ext_call E s ev) = bucket s"
  "done_array (ext_call E s ev) = done_array s"
  by (simp_all add: ext_call_def issue_def arrive_def)

lemma getObjectMeta_cases:
  "getObjectMeta E s b nm =
     (case head E b nm of
        Inl e \<Rightarrow> (Inl e, s\<lparr>bucket := b, cancelFlag := cancelFlag s \<or> cancelDuring E (HeadReq b nm),
                            trace := trace s @ [HeadReq b nm]\<rparr>)
      | Inr d \<Rightarrow> (Inr d, s\<lparr>cancelFlag := cancelFlag s \<or> cancelDuring E (HeadReq b nm),
                            trace := trace s @ [HeadReq b nm]\<rparr>))"
  by (simp add: getObjectMeta_def getBucket_def setBucket_def ext_call_def issue_def arrive_def
      split: sum.splits)

text \<open>
  C9. When \<open>_getObjectMeta\<close> returns, the client's bucket is what it was before the call:
  the bucket is switched to the source bucket for the head request and then restored. When
  the head request throws, the bucket is not restored and stays the source bucket. The
  head request is issued against the source bucket in both cases.
\<close>

theorem getObjectMeta_bucket:
  "(\<forall>d s'. getObjectMeta E s b nm = (Inr d, s') \<longrightarrow>
       getBucket s' = getBucket s \<and> head E b nm = Inr d)
   \<and> (\<forall>e s'. getObjectMeta E s b nm = (Inl e, s') \<longrightarrow>
       getBucket s' = b \<and> head E b nm = Inl e)
   \<and> trace (snd (getObjectMeta E s b nm)) = trace s @ [HeadReq b nm]"
  by (auto simp: getObjectMeta_cases getBucket_def split: sum.splits)

theorem getObjectMeta_bucket_witness:
  "getObjectMeta demo_env demo_state ''src'' ''key'' =
     (Inr 500000, demo_state\<lparr>trace := [HeadReq ''src'' ''key'']\<rparr>)
   \<and> getBucket (demo_state\<lparr>trace := [HeadReq ''src'' ''key'']\<rparr>) = getBucket demo_state
   \<and> getObjectMeta (demo_env\<lparr>head := \<lambda>b k. Inl (new_Error ''gone'')\<rparr>) demo_state ''src'' ''key'' =
     (Inl (new_Error ''gone''), demo_state\<lparr>bucket := ''src'', trace := [HeadReq ''src'' ''key'']\<rparr>)
   \<and> getBucket (demo_state\<lparr>bucket := ''src'', trace := [HeadReq ''src'' ''key'']\<rparr>) = ''src''"
proof -
  have a: "getObjectMeta demo_env demo_state ''src'' ''key'' =
     (Inr 500000, demo_state\<lparr>trace := [HeadReq ''src'' ''key'']\<rparr>)"
    by (simp add: getObjectMeta_cases demo_env_def demo_state_def)
  have b: "getObjectMeta (demo_env\<lparr>head := \<lambda>b k. Inl (new_Error ''gone'')\<rparr>) demo_state ''src'' ''key'' =
     (Inl (new_Error ''gone''), demo_state\<lparr>bucket := ''src'', trace := [HeadReq ''src'' ''key'']\<rparr>)"
    by (simp add: getObjectMeta_cases demo_env_def demo_state_def)
  from getObjectMeta_bucket[of demo_env demo_state "''src''" "''key''"] a
  have c: "getBucket (demo_state\<lparr>trace := [HeadReq ''src'' ''key'']\<rparr>) = getBucket demo_state"
    by blast
  from getObjectMeta_bucket[of "demo_env\<lparr>head := \<lambda>b k. Inl (new_Error ''gone'')\<rparr>" demo_state "''src''" "''key''"] b
  have d: "getBucket (demo_state\<lparr>bucket := ''src'', trace := [HeadReq ''src'' ''key'']\<rparr>) = ''src''"
    by blast
  from a b c d show ?thesis by blast
qed

section \<open>An invariant rule for the job pool\<close>

text \<open>
  What holds initially and is kept by the start of a queued job and by the completion of
  a running one holds when the pool returns; with a positive \<open>maxParallel\<close> no job is left
  in the queue then.
\<close>

lemma thunkPool_loop_stop:
  "\<not> (queue \<noteq> [] \<and> int (length running) < par) \<Longrightarrow> running = [] \<Longrightarrow>
   thunkPool_loop js jf par pks queue running errs s = (errs, s)"
  by (subst thunkPool_loop.simps) auto

lemma thunkPool_loop_finish:
  "\<not> (queue \<noteq> [] \<and> int (length running) < par) \<Longrightarrow> running \<noteq> [] \<Longrightarrow>
   k = (case pks of [] \<Rightarrow> 0 | x # _ \<Rightarrow> x mod length running) \<Longrightarrow>
   thunkPool_loop js jf par pks queue running errs s =
     (case jf (running ! k) s of
        (None, s1) \<Rightarrow>
          thunkPool_loop js jf par (tl pks) queue (take k running @ drop (Suc k) running) errs s1
      | (Some e, s1) \<Rightarrow>
          thunkPool_loop js jf par (tl pks) queue (take k running @ drop (Suc k) running)
            (errs @ [(running ! k, e)]) s1)"
  by (subst thunkPool_loop.simps) (auto simp: Let_def)

lemma thunkPool_loop_rule:
  assumes "I queue running errs s"
    and "\<And>q qs rn es t r t1. I (q # qs) rn es t \<Longrightarrow> int (length rn) < par \<Longrightarrow> js q t = (r, t1) \<Longrightarrow>
           (case r of Started \<Rightarrow> I qs (rn @ [q]) es t1
                    | Skipped \<Rightarrow> I qs rn es t1
                    | Failed e \<Rightarrow> I qs rn (es @ [(q, e)]) t1)"
    and "\<And>qs rn es t k r t1. I qs rn es t \<Longrightarrow> k < length rn \<Longrightarrow> jf (rn ! k) t = (r, t1) \<Longrightarrow>
           I qs (take k rn @ drop (Suc k) rn)
             (case r of None \<Rightarrow> es | Some e \<Rightarrow> es @ [(rn ! k, e)]) t1"
  shows "\<exists>queue' errs' s'. thunkPool_loop js jf par pks queue running errs s = (errs', s')
           \<and> I queue' [] errs' s' \<and> (0 < par \<longrightarrow> queue' = [])"
  using assms
proof (induction js jf par pks queue running errs s rule: thunkPool_loop.induct)
  case (1 js jf par pks queue running errs s)
  note inv = "1.prems"(1) and st = "1.prems"(2) and fi = "1.prems"(3)
  show ?case
  proof (cases "queue \<noteq> [] \<and> int (length running) < par")
    case True
    then obtain q qs where q: "queue = q # qs" by (cases queue) auto
    obtain r s1 where r: "js q s = (r, s1)" by (cases "js q s")
    have step: "case r of Started \<Rightarrow> I qs (running @ [q]) errs s1
                    | Skipped \<Rightarrow> I qs running errs s1
                    | Failed e \<Rightarrow> I qs running (errs @ [(q, e)]) s1"
      using st[of q qs running errs s r s1] inv True r q by simp
    show ?thesis
    proof (cases r)
      case Started
      have "\<exists>queue' errs' s'. thunkPool_loop js jf par pks (tl queue) (running @ [hd queue]) errs s1 = (errs', s')
              \<and> I queue' [] errs' s' \<and> (0 < par \<longrightarrow> queue' = [])"
        using "1.IH"(1)[OF True _ _ _ st fi, of Started s1] r Started step q by simp
      then show ?thesis
        using True r Started by (subst thunkPool_loop.simps) (simp add: q)
    next
      case Skipped
      have "\<exists>queue' errs' s'. thunkPool_loop js jf par pks (tl queue) running errs s1 = (errs', s')
              \<and> I queue' [] errs' s' \<and> (0 < par \<longrightarrow> queue' = [])"
        using "1.IH"(2)[OF True _ _ _ st fi, of Skipped s1] r Skipped step q by simp
      then show ?thesis
        using True r Skipped by (subst thunkPool_loop.simps) (simp add: q)
    next
      case (Failed e)
      have "\<exists>queue' errs' s'. thunkPool_loop js jf par pks (tl queue) running (errs @ [(hd queue, e)]) s1 = (errs', s')
              \<and> I queue' [] errs' s' \<and> (0 < par \<longrightarrow> queue' = [])"
        using "1.IH"(3)[OF True _ _ _ st fi, of "Failed e" s1 e] r Failed step q by simp
      then show ?thesis
        using True r Failed by (subst thunkPool_loop.simps) (simp add: q)
    qed
  next
    case False
    show ?thesis
    proof (cases "running = []")
      case True
      have "thunkPool_loop js jf par pks queue running errs s = (errs, s)"
        using False True by (rule thunkPool_loop_stop)
      moreover have "0 < par \<longrightarrow> queue = []" using False True by auto
      ultimately show ?thesis using inv True by blast
    next
      case ne: False
      define k where "k = (case pks of [] \<Rightarrow> 0 | x # _ \<Rightarrow> x mod length running)"
      have k: "k < length running" using ne by (auto simp: k_def split: list.splits)
      obtain r s1 where r: "jf (running ! k) s = (r, s1)" by (cases "jf (running ! k) s")
      have step: "I queue (take k running @ drop (Suc k) running)
             (case r of None \<Rightarrow> errs | Some e \<Rightarrow> errs @ [(running ! k, e)]) s1"
        using fi[OF inv k r] .
      show ?thesis
      proof (cases r)
        case None
        have "\<exists>queue' errs' s'. thunkPool_loop js jf par (tl pks) queue (take k running @ drop (Suc k) running) errs s1 = (errs', s')
              \<and> I queue' [] errs' s' \<and> (0 < par \<longrightarrow> queue' = [])"
          using "1.IH"(4)[OF False ne k_def refl _ _ _ st fi, of None s1] r None step by simp
        then show ?thesis
          using r None by (simp add: thunkPool_loop_finish[OF False ne k_def])
      next
        case (Some e)
        have "\<exists>queue' errs' s'. thunkPool_loop js jf par (tl pks) queue (take k running @ drop (Suc k) running) (errs @ [(running ! k, e)]) s1 = (errs', s')
              \<and> I queue' [] errs' s' \<and> (0 < par \<longrightarrow> queue' = [])"
          using "1.IH"(5)[OF False ne k_def refl _ _ _ st fi, of "Some e" s1 e] r Some step by simp
        then show ?thesis
          using r Some by (simp add: thunkPool_loop_finish[OF False ne k_def])
      qed
    qed
  qed
qed

lemma thunkPool_loop_rule_any:
  assumes "I queue running errs s"
    and "\<And>q qs rn es t r t1. I (q # qs) rn es t \<Longrightarrow> int (length rn) < par \<Longrightarrow> js q t = (r, t1) \<Longrightarrow>
           (case r of Started \<Rightarrow> I qs (rn @ [q]) es t1
                    | Skipped \<Rightarrow> I qs rn es t1
                    | Failed e \<Rightarrow> I qs rn (es @ [(q, e)]) t1)"
    and "\<And>qs rn es t k r t1. I qs rn es t \<Longrightarrow> k < length rn \<Longrightarrow> jf (rn ! k) t = (r, t1) \<Longrightarrow>
           I qs (take k rn @ drop (Suc k) rn)
             (case r of None \<Rightarrow> es | Some e \<Rightarrow> es @ [(rn ! k, e)]) t1"
  shows "\<exists>errs' s' queue'. thunkPool_loop js jf par pks queue running errs s = (errs', s')
           \<and> I queue' [] errs' s'"
proof -
  have "\<exists>queue' errs' s'. thunkPool_loop js jf par pks queue running errs s = (errs', s')
           \<and> I queue' [] errs' s' \<and> (0 < par \<longrightarrow> queue' = [])"
    by (rule thunkPool_loop_rule[where I = I, OF assms(1) assms(2) assms(3)])
  then show ?thesis by blast
qed

section \<open>The steps of a part job\<close>

lemma job_start_cancelled:
  "cancelFlag s \<Longrightarrow> uploadPartJob_start ck partOffs src p s = (Skipped, s)"
  by (simp add: uploadPartJob_start_def isCancel_def)




section \<open>The phases of \<open>multipartUploadCopy\<close>\<close>

lemma show_min: "show_int minPartSize = ''102400''"
  by (simp add: show_int_def minPartSize_def show_nat.simps)

lemma multipartUploadCopy_head_failed:
  "head E (sourceBucketName sd) (sourceKey sd) = Inl e \<Longrightarrow>
   multipartUploadCopy E s nm sd opts =
     (Some (Inl (Thrown e)), (after_head E s sd)\<lparr>bucket := sourceBucketName sd\<rparr>)"
  by (simp add: multipartUploadCopy_def getObjectMeta_cases resetCancelFlag_def after_head_def)

lemma multipartUploadCopy_head_ok:
  "head E (sourceBucketName sd) (sourceKey sd) = Inr d \<Longrightarrow>
   multipartUploadCopy E s nm sd opts =
     (case opt_checkpoint opts of
        Some ck \<Rightarrow>
          if uploadId ck \<noteq> [] then resumeMultipartCopy E (after_head E s sd) ck (defaulted sd d) opts
          else fresh_copy E (after_head E s sd) nm (defaulted sd d) opts
      | None \<Rightarrow> fresh_copy E (after_head E s sd) nm (defaulted sd d) opts)"
  by (simp add: multipartUploadCopy_def getObjectMeta_cases resetCancelFlag_def after_head_def
      defaulted_def Let_def split: option.splits)

lemma multipartUploadCopy_fresh:
  "head E (sourceBucketName sd) (sourceKey sd) = Inr d \<Longrightarrow> is_fresh opts \<Longrightarrow>
   multipartUploadCopy E s nm sd opts = fresh_copy E (after_head E s sd) nm (defaulted sd d) opts"
  by (simp add: multipartUploadCopy_head_ok is_fresh_def split: option.splits)

lemma fresh_copy_small:
  "endOffset src - startOffset src < minPartSize \<Longrightarrow>
   fresh_copy E s nm src opts = (Some (Inl copySize_error), s)"
  by (simp add: fresh_copy_def copySize_error_def show_min)

lemma fresh_copy_small_part:
  "minPartSize \<le> endOffset src - startOffset src \<Longrightarrow>
   opt_partSize opts = Some v \<Longrightarrow> v \<noteq> 0 \<Longrightarrow> v < minPartSize \<Longrightarrow>
   fresh_copy E s nm src opts = (Some (Inl partSize_error), s)"
  by (simp add: fresh_copy_def partSize_error_def show_min truthy_def)

section \<open>The log of calls only grows\<close>

lemma job_start_trace:
  "uploadPartJob_start ck partOffs src p s = (r, s1) \<Longrightarrow> prefix (trace s) (trace s1)"
  by (auto simp: uploadPartJob_start_def uploadPartCopy_send_def issue_def
      split: if_splits option.splits)

lemma job_finish_trace:
  "uploadPartJob_finish E opts ck partOffs src p s = (r, s1) \<Longrightarrow> prefix (trace s) (trace s1)"
  by (auto simp: uploadPartJob_finish_def uploadPartCopy_recv_def arrive_def Let_def
      split: if_splits option.splits sum.splits)

lemma job_trace:
  "uploadPartJob E opts ck partOffs src p s = (r, s1) \<Longrightarrow> prefix (trace s) (trace s1)"
  unfolding uploadPartJob_def
  by (auto split: prod.splits job_start.splits dest!: job_start_trace job_finish_trace)

lemma sequential_loop_trace:
  "sequential_loop E opts ck partOffs src todo s = (r, s1) \<Longrightarrow> prefix (trace s) (trace s1)"
proof (induction todo arbitrary: s)
  case Nil
  then show ?case by simp
next
  case (Cons p todo)
  show ?case
  proof (cases "isCancel s")
    case True
    with Cons.prems show ?thesis by simp
  next
    case False
    obtain x s2 where j: "uploadPartJob E opts ck partOffs src p s = (x, s2)"
      by (cases "uploadPartJob E opts ck partOffs src p s")
    have p2: "prefix (trace s) (trace s2)" using job_trace[OF j] .
    show ?thesis
    proof (cases x)
      case None
      with Cons.prems False j have "sequential_loop E opts ck partOffs src todo s2 = (r, s1)"
        by simp
      from Cons.IH[OF this] p2 show ?thesis by auto
    next
      case (Some e)
      with Cons.prems False j have "s1 = s2" by simp
      with p2 show ?thesis by simp
    qed
  qed
qed

lemma thunkPool_trace:
  assumes "thunkPool (uploadPartJob_start ck partOffs src)
             (uploadPartJob_finish E opts ck partOffs src) pks jobs par s = (errors, s1)"
  shows "prefix (trace s) (trace s1)"
proof -
  have "\<exists>errs' s' (queue' :: int list). thunkPool_loop (uploadPartJob_start ck partOffs src)
             (uploadPartJob_finish E opts ck partOffs src) par pks jobs [] [] s = (errs', s')
           \<and> prefix (trace s) (trace s')"
  proof (rule thunkPool_loop_rule_any[where I = "\<lambda>(q::int list) (r::int list) (e::(int \<times> err) list) t. prefix (trace s) (trace t)"], goal_cases)
    case 1
    show ?case by simp
  next
    case (2 q qs rn es t r t1)
    from job_start_trace[OF 2(3)] 2(1) have "prefix (trace s) (trace t1)" by auto
    then show ?case by (cases r) simp_all
  next
    case (3 qs rn es t k r t1)
    from job_finish_trace[OF 3(3)] 3(1) show ?case by auto
  qed
  with assms show ?thesis by (auto simp: thunkPool_def)
qed

lemma complete_call_trace:
  "complete_call E ck s = (r, s1) \<Longrightarrow> prefix (trace s) (trace s1)"
  by (auto simp: complete_call_def Let_def split: sum.splits)

lemma resumeMultipartCopy_trace:
  assumes "resumeMultipartCopy E s ck src opts = (r, s1)"
  shows "prefix (trace s) (trace s1)"
proof -
  let ?s = "s\<lparr>done_array := doneParts ck\<rparr>"
  have t0: "trace ?s = trace s" by simp
  show ?thesis
  proof (cases "isCancel ?s")
    case True
    with assms have "s1 = ?s" by (simp add: resumeMultipartCopy_def)
    then show ?thesis by simp
  next
    case nc: False
    show ?thesis
    proof (cases "divideMultipartCopyParts (copySize ck) (partSize ck) (startOffset src)")
      case None
      with assms nc have "s1 = ?s" by (simp add: resumeMultipartCopy_def)
      then show ?thesis by simp
    next
      case po: (Some partOffs)
      let ?todo = "todo_parts ck (int (length partOffs))"
      show ?thesis
      proof (cases "isIE10 E \<or> js_or (parallel opts) 5 = 1")
        case True
        obtain x s2 where l: "sequential_loop E opts ck partOffs src ?todo ?s = (x, s2)"
          by (cases "sequential_loop E opts ck partOffs src ?todo ?s")
        have p2: "prefix (trace s) (trace s2)" using sequential_loop_trace[OF l] by simp
        show ?thesis
        proof (cases x)
          case None
          with assms nc po True l have "complete_call E ck s2 = (r, s1)"
            by (simp add: resumeMultipartCopy_def Let_def)
          from complete_call_trace[OF this] p2 show ?thesis by auto
        next
          case (Some t)
          with assms nc po True l have "s1 = s2"
            by (simp add: resumeMultipartCopy_def Let_def)
          with p2 show ?thesis by simp
        qed
      next
        case False
        obtain errors s2 where l: "thunkPool (uploadPartJob_start ck partOffs src)
               (uploadPartJob_finish E opts ck partOffs src) (picks E) ?todo (js_or (parallel opts) 5) ?s = (errors, s2)"
          by (cases "thunkPool (uploadPartJob_start ck partOffs src)
               (uploadPartJob_finish E opts ck partOffs src) (picks E) ?todo (js_or (parallel opts) 5) ?s")
        have p2: "prefix (trace s) (trace s2)" using thunkPool_trace[OF l] by simp
        show ?thesis
        proof (cases "isCancel s2 \<or> errors \<noteq> []")
          case True
          with assms nc po False l have "s1 = s2"
            by (auto simp: resumeMultipartCopy_def Let_def split: if_splits)
          with p2 show ?thesis by simp
        next
          case f: False
          with assms nc po False l have "complete_call E ck s2 = (r, s1)"
            by (simp add: resumeMultipartCopy_def Let_def)
          from complete_call_trace[OF this] p2 show ?thesis by auto
        qed
      qed
    qed
  qed
qed

lemma prefix_snoc_more: "prefix (xs @ a # ys) zs \<Longrightarrow> prefix (xs @ [a]) zs"
  by (metis append.assoc append_Cons append_Nil append_prefixD)

lemma fresh_copy_accepted:
  assumes "minPartSize \<le> endOffset src - startOffset src"
    and "\<not> (\<exists>v. opt_partSize opts = Some v \<and> v \<noteq> 0 \<and> v < minPartSize)"
  shows "fresh_copy E s nm src opts =
     (case initMultipartUpload E nm of
        Inl e \<Rightarrow> (Some (Inl (Thrown e)), ext_call E s (InitReq nm))
      | Inr (uid, r) \<Rightarrow>
          (let ck = \<lparr>name = nm, copySize = endOffset src - startOffset src,
                     partSize = getPartSize E (endOffset src - startOffset src) (opt_partSize opts),
                     uploadId = uid, doneParts = []\<rparr>
           in case progress opts of
                None \<Rightarrow> resumeMultipartCopy E (ext_call E s (InitReq nm)) ck src opts
              | Some f \<Rightarrow>
                  (case f 0 ck r of
                     Some e \<Rightarrow> (Some (Inl (Thrown e)), ext_call E (ext_call E s (InitReq nm)) (ProgressCall 0 ck r))
                   | None \<Rightarrow> resumeMultipartCopy E (ext_call E (ext_call E s (InitReq nm)) (ProgressCall 0 ck r)) ck src opts)))"
proof -
  have v: "(truthy (opt_partSize opts) \<and> the (opt_partSize opts) < minPartSize) = False"
    using assms(2) by (auto simp: truthy_def split: option.splits)
  have c: "(endOffset src - startOffset src < minPartSize) = False"
    using assms(1) by simp
  show ?thesis
    unfolding fresh_copy_def Let_def c v if_False
    by (simp split: sum.splits prod.splits option.splits)
qed

lemma fresh_copy_accepted_trace:
  assumes "fresh_copy E s nm src opts = (r, s1)"
    and "minPartSize \<le> endOffset src - startOffset src"
    and "\<not> (\<exists>v. opt_partSize opts = Some v \<and> v \<noteq> 0 \<and> v < minPartSize)"
  shows "prefix (trace s @ [InitReq nm]) (trace s1)"
proof (cases "initMultipartUpload E nm")
  case (Inl e)
  with assms show ?thesis by (auto simp: fresh_copy_accepted)
next
  case (Inr ur)
  obtain uid x where ur: "ur = (uid, x)" by (cases ur)
  define ck where "ck = \<lparr>name = nm, copySize = endOffset src - startOffset src,
                     partSize = getPartSize E (endOffset src - startOffset src) (opt_partSize opts),
                     uploadId = uid, doneParts = []\<rparr>"
  show ?thesis
  proof (cases "progress opts")
    case None
    with assms Inr ur have "resumeMultipartCopy E (ext_call E s (InitReq nm)) ck src opts = (r, s1)"
      by (simp add: fresh_copy_accepted ck_def Let_def)
    from resumeMultipartCopy_trace[OF this] show ?thesis by simp
  next
    case (Some f)
    show ?thesis
    proof (cases "f 0 ck x")
      case None
      with assms Inr ur Some
      have "resumeMultipartCopy E (ext_call E (ext_call E s (InitReq nm)) (ProgressCall 0 ck x)) ck src opts = (r, s1)"
        by (simp add: fresh_copy_accepted ck_def Let_def)
      from resumeMultipartCopy_trace[OF this] show ?thesis
        by (simp add: prefix_snoc_more)
    next
      case e: (Some e)
      with assms Inr ur Some have "s1 = ext_call E (ext_call E s (InitReq nm)) (ProgressCall 0 ck x)"
        by (auto simp: fresh_copy_accepted ck_def Let_def)
      then show ?thesis by simp
    qed
  qed
qed

lemma fresh_copy_trace:
  assumes "fresh_copy E s nm src opts = (r, s1)"
  shows "prefix (trace s) (trace s1)"
proof (cases "endOffset src - startOffset src < minPartSize")
  case True
  with assms show ?thesis by (simp add: fresh_copy_small)
next
  case False
  show ?thesis
  proof (cases "\<exists>v. opt_partSize opts = Some v \<and> v \<noteq> 0 \<and> v < minPartSize")
    case True
    with assms False show ?thesis by (auto simp: fresh_copy_small_part)
  next
    case nv: False
    from fresh_copy_accepted_trace[OF assms _ nv] False
    have "prefix (trace s @ [InitReq nm]) (trace s1)" by simp
    then show ?thesis by (rule append_prefixD)
  qed
qed

section \<open>What the resumption does not read\<close>

lemma ext_call_head_irrelevant: "ext_call (E\<lparr>head := h\<rparr>) = ext_call E"
  by (simp add: fun_eq_iff ext_call_def arrive_def)

lemma uploadPartJob_head_irrelevant:
  "uploadPartJob_finish (E\<lparr>head := h\<rparr>) = uploadPartJob_finish E"
  "uploadPartJob (E\<lparr>head := h\<rparr>) = uploadPartJob E"
  "complete_call (E\<lparr>head := h\<rparr>) = complete_call E"
  by (simp_all add: fun_eq_iff uploadPartJob_def uploadPartJob_finish_def uploadPartCopy_recv_def
        arrive_def ext_call_head_irrelevant complete_call_def
        cong: option.case_cong prod.case_cong sum.case_cong if_cong job_start.case_cong)

lemma sequential_loop_head_irrelevant:
  "sequential_loop (E\<lparr>head := h\<rparr>) opts ck partOffs src todo s =
   sequential_loop E opts ck partOffs src todo s"
  by (induction todo arbitrary: s)
     (simp_all add: uploadPartJob_head_irrelevant split: prod.splits option.splits)

lemma resumeMultipartCopy_head_irrelevant:
  "resumeMultipartCopy (E\<lparr>head := h\<rparr>) s ck src opts = resumeMultipartCopy E s ck src opts"
  by (simp add: resumeMultipartCopy_def sequential_loop_head_irrelevant
      uploadPartJob_head_irrelevant
      cong: option.case_cong prod.case_cong sum.case_cong if_cong)

lemma fresh_copy_head_irrelevant:
  "fresh_copy (E\<lparr>head := h\<rparr>) s nm src opts = fresh_copy E s nm src opts"
  by (simp add: fresh_copy_def resumeMultipartCopy_head_irrelevant ext_call_head_irrelevant
      cong: option.case_cong prod.case_cong sum.case_cong if_cong)




section \<open>Running the functions on concrete inputs\<close>

lemmas run_defs =
  multipartUploadCopy_def fresh_copy_def resumeMultipartCopy_def getObjectMeta_def
  resetCancelFlag_def isCancel_def getBucket_def setBucket_def ext_call_def issue_def arrive_def
  js_or_def truthy_def minPartSize_def range_of_def divide_parts_exact exact_bound_def
  overflow_bound_def ceil_div_def part_at_def js_add_def js_round_def round_nat_def js_neg_def todo_parts_def thunkPool_def thunkPool_loop.simps
  uploadPartJob_def uploadPartJob_start_def uploadPartJob_finish_def uploadPartCopy_send_def
  uploadPartCopy_recv_def nth_opt_def complete_call_def checkpoint_of_def catch_partNum_def
  failed_parts_error_def throw_first_def undefined_error_def toString_def show_partNum_def show_int_def show_nat.simps new_Error_def
  upto_rec1 Let_def

lemmas demo_defs = demo_env_def demo_state_def demo_source_def demo_options_def ok_res_def

section \<open>The jobs while nobody cancels\<close>

lemma uploadPartCopy_send_simps [simp]:
  "trace (uploadPartCopy_send t nm uid p rng src) =
     trace t @ [PartCopyReq nm uid p rng (sourceBucketName src) (sourceKey src)]"
  "cancelFlag (uploadPartCopy_send t nm uid p rng src) = cancelFlag t"
  "done_array (uploadPartCopy_send t nm uid p rng src) = done_array t"
  "bucket (uploadPartCopy_send t nm uid p rng src) = bucket t"
  by (simp_all add: uploadPartCopy_send_def issue_def)



lemma map_filter_append: "List.map_filter f (xs @ ys) = List.map_filter f xs @ List.map_filter f ys"
  by (simp add: List.map_filter_def)




lemma complete_call_result:
  "complete_call E ck s =
     ((case completeMultipartUpload E (name ck) (uploadId ck) (done_array s) of
         Inl e \<Rightarrow> Some (Inl (Thrown e)) | Inr r \<Rightarrow> Some (Inr r)),
      ext_call E s (CompleteReq (name ck) (uploadId ck) (done_array s)))"
  by (simp add: complete_call_def Let_def split: sum.splits)

lemma resumeMultipartCopy_sequential:
  assumes "\<not> cancelFlag s"
    and "divideMultipartCopyParts (copySize ck) (partSize ck) (startOffset src) = Some partOffs"
    and "isIE10 E \<or> js_or (parallel opts) 5 = 1"
  shows "resumeMultipartCopy E s ck src opts =
     (case sequential_loop E opts ck partOffs src (todo_parts ck (int (length partOffs)))
             (s\<lparr>done_array := doneParts ck\<rparr>) of
        (Some t, s1) \<Rightarrow> (Some (Inl t), s1)
      | (None, s1) \<Rightarrow> complete_call E ck s1)"
  using assms by (simp add: resumeMultipartCopy_def isCancel_def Let_def)

lemma resumeMultipartCopy_parallel:
  assumes "\<not> cancelFlag s"
    and "divideMultipartCopyParts (copySize ck) (partSize ck) (startOffset src) = Some partOffs"
    and "\<not> (isIE10 E \<or> js_or (parallel opts) 5 = 1)"
  shows "resumeMultipartCopy E s ck src opts =
     (case thunkPool (uploadPartJob_start ck partOffs src)
             (uploadPartJob_finish E opts ck partOffs src) (picks E)
             (todo_parts ck (int (length partOffs))) (js_or (parallel opts) 5)
             (s\<lparr>done_array := doneParts ck\<rparr>) of
        (errors, s1) \<Rightarrow>
          if isCancel s1 then (Some (Inl CancelEvent), s1)
          else if 0 < length errors then (Some (Inl (throw_first (hd errors))), s1)
          else complete_call E ck s1)"
  using assms by (simp add: resumeMultipartCopy_def isCancel_def Let_def)

section \<open>The ratios reported to the progress callback\<close>

lemma ratios_ok_simps [simp]:
  "ratios_ok []"
  "ratios_ok (tr @ tr') = (ratios_ok tr \<and> ratios_ok tr')"
  "ratios_ok (ev # tr) = ((\<forall>q. progress_ratio ev = Some q \<longrightarrow> 0 \<le> q \<and> q \<le> 1) \<and> ratios_ok tr)"
  by (auto simp: ratios_ok_def)

lemma job_start_effect:
  assumes "uploadPartJob_start ck partOffs src q t = (r, t1)"
  shows "done_array t1 = done_array t \<and> (\<exists>tr. trace t1 = trace t @ tr \<and> ratios_ok tr)"
proof (cases "\<not> cancelFlag t \<and> nth_opt partOffs (q - 1) \<noteq> None")
  case True
  then obtain po where "nth_opt partOffs (q - 1) = Some po" by auto
  with True assms have "t1 = uploadPartCopy_send t (name ck) (uploadId ck) q (range_of po) src"
    by (simp add: uploadPartJob_start_def isCancel_def)
  then show ?thesis by simp
next
  case False
  with assms have "t1 = t"
    by (auto simp: uploadPartJob_start_def isCancel_def split: if_splits option.splits)
  then show ?thesis by simp
qed

lemma job_finish_effect:
  assumes "uploadPartJob_finish E opts ck partOffs src p t = (r, t1)"
  shows "(done_array t1 = done_array t \<and> trace t1 = trace t)
       \<or> (\<exists>x. done_array t1 = done_array t @ [x]
             \<and> (trace t1 = trace t
                 \<or> (\<exists>c y. trace t1 = trace t @
                      [ProgressCall (of_nat (length (done_array t) + 1) / of_int (int (length partOffs))) c y])))"
  using assms
  by (auto simp: uploadPartJob_finish_def uploadPartCopy_recv_def arrive_def Let_def isCancel_def
      split: option.splits sum.splits if_splits)

lemma ratio_in_range:
  assumes "n + 1 \<le> N"
  shows "0 \<le> (of_nat (n + 1) / of_int (int N) :: rat)" and "(of_nat (n + 1) / of_int (int N) :: rat) \<le> 1"
proof -
  have N: "0 < N" using assms by simp
  show "0 \<le> (of_nat (n + 1) / of_int (int N) :: rat)" by simp
  have "(of_nat (n + 1) :: rat) \<le> of_nat N" using assms by (simp only: of_nat_le_iff)
  then show "(of_nat (n + 1) / of_int (int N) :: rat) \<le> 1" using N by simp
qed

lemma inv_ratio_start:
  assumes "inv_ratio N T0 (q # qs) rn t" and "uploadPartJob_start ck partOffs src q t = (r, t1)"
  shows "inv_ratio N T0 qs (rn @ [q]) t1" and "inv_ratio N T0 qs rn t1"
proof -
  from job_start_effect[OF assms(2)] obtain tr1 where
    e: "done_array t1 = done_array t" "trace t1 = trace t @ tr1" "ratios_ok tr1" by blast
  from assms(1) obtain tr0 where i: "length (done_array t) + length (q # qs) + length rn \<le> N"
    "trace t = T0 @ tr0" "ratios_ok tr0" by (auto simp: inv_ratio_def)
  have tr: "trace t1 = T0 @ (tr0 @ tr1)" "ratios_ok (tr0 @ tr1)" using e i by simp_all
  show "inv_ratio N T0 qs (rn @ [q]) t1" unfolding inv_ratio_def using tr e(1) i(1) by force
  show "inv_ratio N T0 qs rn t1" unfolding inv_ratio_def using tr e(1) i(1) by force
qed

lemma inv_ratio_finish:
  assumes "inv_ratio (length partOffs) T0 qs rn t" and "k < length rn"
    and "uploadPartJob_finish E opts ck partOffs src (rn ! k) t = (r, t1)"
  shows "inv_ratio (length partOffs) T0 qs (take k rn @ drop (Suc k) rn) t1"
proof -
  let ?N = "length partOffs"
  from assms(1) obtain tr0 where i: "length (done_array t) + length qs + length rn \<le> ?N"
    "trace t = T0 @ tr0" "ratios_ok tr0" by (auto simp: inv_ratio_def)
  have l: "length (take k rn @ drop (Suc k) rn) = length rn - 1" using assms(2) by simp
  have room: "length (done_array t) + 1 \<le> ?N" using i(1) assms(2) by simp
  note r = ratio_in_range[OF room]
  from job_finish_effect[OF assms(3)]
  have "length (done_array t1) \<le> length (done_array t) + 1 \<and> (\<exists>tr1. trace t1 = trace t @ tr1 \<and> ratios_ok tr1)"
  proof (elim disjE exE conjE)
    assume "done_array t1 = done_array t" "trace t1 = trace t"
    then show ?thesis by simp
  next
    fix x assume "done_array t1 = done_array t @ [x]" "trace t1 = trace t"
    then show ?thesis by simp
  next
    fix x c y assume "done_array t1 = done_array t @ [x]"
      "trace t1 = trace t @ [ProgressCall (of_nat (length (done_array t) + 1) / of_int (int ?N)) c y]"
    then show ?thesis using r by simp
  qed
  then obtain tr1 where e: "length (done_array t1) \<le> length (done_array t) + 1"
    "trace t1 = trace t @ tr1" "ratios_ok tr1" by blast
  have "trace t1 = T0 @ (tr0 @ tr1)" "ratios_ok (tr0 @ tr1)" using e i by simp_all
  moreover have "length (done_array t1) + length qs + length (take k rn @ drop (Suc k) rn) \<le> ?N"
    using e(1) i(1) l assms(2) by simp
  ultimately show ?thesis unfolding inv_ratio_def by blast
qed

lemma thunkPool_ratio:
  assumes "length (done_array s) + length todo \<le> length partOffs"
    and "thunkPool (uploadPartJob_start ck partOffs src)
             (uploadPartJob_finish E opts ck partOffs src) pks todo par s = (errors, s1)"
  shows "\<exists>tr. trace s1 = trace s @ tr \<and> ratios_ok tr"
proof -
  let ?I = "\<lambda>(q::int list) (r::int list) (e::(int \<times> err) list) t. inv_ratio (length partOffs) (trace s) q r t"
  have "\<exists>errs' s' (queue' :: int list). thunkPool_loop (uploadPartJob_start ck partOffs src)
             (uploadPartJob_finish E opts ck partOffs src) par pks todo [] [] s = (errs', s')
           \<and> ?I queue' [] errs' s'"
  proof (rule thunkPool_loop_rule_any[where I = ?I], goal_cases)
    case 1
    show ?case using assms(1) by (simp add: inv_ratio_def)
  next
    case (2 q qs rn es t r t1)
    from inv_ratio_start[OF 2(1) 2(3)] show ?case by (cases r) simp_all
  next
    case (3 qs rn es t k r t1)
    from inv_ratio_finish[OF 3(1) 3(2) 3(3)] show ?case .
  qed
  with assms(2) show ?thesis by (auto simp: thunkPool_def inv_ratio_def)
qed

lemma uploadPartJob_ratio:
  assumes i: "inv_ratio (length partOffs) T0 (p # todo) [] s"
    and j: "uploadPartJob E opts ck partOffs src p s = (r, s1)"
  shows "inv_ratio (length partOffs) T0 todo [] s1"
proof -
  obtain r0 t where st: "uploadPartJob_start ck partOffs src p s = (r0, t)"
    by (cases "uploadPartJob_start ck partOffs src p s")
  note a = inv_ratio_start[OF i st]
  show ?thesis
  proof (cases r0)
    case Started
    with j st have fin: "uploadPartJob_finish E opts ck partOffs src ([p] ! 0) t = (r, s1)"
      by (simp add: uploadPartJob_def)
    from inv_ratio_finish[OF a(1)[simplified] _ fin] show ?thesis by simp
  next
    case Skipped
    with j st have "s1 = t" by (simp add: uploadPartJob_def)
    with a(2) show ?thesis by simp
  next
    case (Failed e)
    with j st have "s1 = t" by (simp add: uploadPartJob_def)
    with a(2) show ?thesis by simp
  qed
qed

lemma sequential_loop_ratio:
  assumes "inv_ratio (length partOffs) T0 todo [] s"
    and "sequential_loop E opts ck partOffs src todo s = (r, s1)"
  shows "inv_ratio (length partOffs) T0 [] [] s1"
  using assms
proof (induction todo arbitrary: s)
  case Nil
  then show ?case by simp
next
  case (Cons p todo)
  have all: "inv_ratio (length partOffs) T0 [] [] t" if "inv_ratio (length partOffs) T0 qs [] t" for qs t
    using that by (auto simp: inv_ratio_def)
  show ?case
  proof (cases "isCancel s")
    case True
    with Cons.prems(2) have "s1 = s" by simp
    with all[OF Cons.prems(1)] show ?thesis by simp
  next
    case False
    obtain x s2 where j: "uploadPartJob E opts ck partOffs src p s = (x, s2)"
      by (cases "uploadPartJob E opts ck partOffs src p s")
    note i2 = uploadPartJob_ratio[OF Cons.prems(1) j]
    show ?thesis
    proof (cases x)
      case None
      with Cons.prems(2) False j have "sequential_loop E opts ck partOffs src todo s2 = (r, s1)"
        by simp
      from Cons.IH[OF i2 this] show ?thesis .
    next
      case (Some e)
      with Cons.prems(2) False j have "s1 = s2" by simp
      with all[OF i2] show ?thesis by simp
    qed
  qed
qed

lemma resumeMultipartCopy_ratio:
  assumes r: "resumeMultipartCopy E s ck src opts = (res, s1)"
    and cnt: "\<And>partOffs. divideMultipartCopyParts (copySize ck) (partSize ck) (startOffset src) = Some partOffs
           \<Longrightarrow> length (doneParts ck) + length (todo_parts ck (int (length partOffs))) \<le> length partOffs"
  shows "\<exists>tr. trace s1 = trace s @ tr \<and> ratios_ok tr"
proof -
  let ?s = "s\<lparr>done_array := doneParts ck\<rparr>"
  show ?thesis
  proof (cases "isCancel ?s")
    case True
    with r have "s1 = ?s" by (simp add: resumeMultipartCopy_def)
    then show ?thesis by simp
  next
    case nc: False
    have none: "s1 = ?s" if "divideMultipartCopyParts (copySize ck) (partSize ck) (startOffset src) = None"
      using that r nc by (simp add: resumeMultipartCopy_def)
    show ?thesis
    proof (cases "divideMultipartCopyParts (copySize ck) (partSize ck) (startOffset src)")
    case None
    from none[OF None] show ?thesis by simp
    next
    case po: (Some partOffs)
    let ?todo = "todo_parts ck (int (length partOffs))"
    have c0: "length (done_array ?s) + length ?todo \<le> length partOffs" using cnt[OF po] by simp
    have f: "\<not> cancelFlag s" using nc by (simp add: isCancel_def)
    have fin: "\<exists>tr. trace s1 = trace s @ tr \<and> ratios_ok tr"
      if "\<exists>tr. trace s2 = trace s @ tr \<and> ratios_ok tr"
        and "s1 = s2 \<or> s1 = ext_call E s2 (CompleteReq (name ck) (uploadId ck) (done_array s2))" for s2
      using that by auto
    show ?thesis
    proof (cases "isIE10 E \<or> js_or (parallel opts) 5 = 1")
      case True
      obtain x s2 where l: "sequential_loop E opts ck partOffs src ?todo ?s = (x, s2)"
        by (cases "sequential_loop E opts ck partOffs src ?todo ?s")
      have "inv_ratio (length partOffs) (trace s) ?todo [] ?s" using c0 by (simp add: inv_ratio_def)
      from sequential_loop_ratio[OF this l]
      have t2: "\<exists>tr. trace s2 = trace s @ tr \<and> ratios_ok tr" by (simp add: inv_ratio_def)
      have "s1 = s2 \<or> s1 = ext_call E s2 (CompleteReq (name ck) (uploadId ck) (done_array s2))"
        using r resumeMultipartCopy_sequential[OF f po True] l
        by (cases x) (auto simp: complete_call_result)
      from fin[OF t2 this] show ?thesis .
    next
      case False
      obtain errors s2 where l: "thunkPool (uploadPartJob_start ck partOffs src)
             (uploadPartJob_finish E opts ck partOffs src) (picks E) ?todo (js_or (parallel opts) 5) ?s = (errors, s2)"
        by (cases "thunkPool (uploadPartJob_start ck partOffs src)
             (uploadPartJob_finish E opts ck partOffs src) (picks E) ?todo (js_or (parallel opts) 5) ?s")
      from thunkPool_ratio[OF c0 l]
      have t2: "\<exists>tr. trace s2 = trace s @ tr \<and> ratios_ok tr" by simp
      have "s1 = s2 \<or> s1 = ext_call E s2 (CompleteReq (name ck) (uploadId ck) (done_array s2))"
        using r resumeMultipartCopy_parallel[OF f po False] l
        by (auto simp: complete_call_result split: if_splits)
      from fin[OF t2 this] show ?thesis .
    qed
    qed
  qed
qed

text \<open>
  The entries of a checkpoint are parts of the plan, each at most once: then they and the
  parts still to do are as many as the parts.
\<close>

lemma todo_parts_count:
  assumes "distinct (map number (doneParts ck))"
    and "\<forall>d \<in> set (doneParts ck). 1 \<le> number d \<and> number d \<le> int N"
  shows "length (doneParts ck) + length (todo_parts ck (int N)) = N"
proof -
  let ?D = "set (map number (doneParts ck))"
  have sub: "?D \<subseteq> {1..int N}" using assms(2) by auto
  have "length (todo_parts ck (int N)) = card (set (todo_parts ck (int N)))"
    by (rule distinct_card[symmetric]) (simp add: todo_parts_def)
  also have "set (todo_parts ck (int N)) = {1..int N} - ?D"
    by (auto simp: todo_parts_def)
  also have "card ({1..int N} - ?D) = card {1..int N} - card ?D"
    using sub by (intro card_Diff_subset) (auto intro: finite_subset)
  also have "card ?D = length (doneParts ck)"
    using distinct_card[OF assms(1)] by simp
  finally have "length (todo_parts ck (int N)) = N - length (doneParts ck)" by simp
  moreover have "length (doneParts ck) \<le> N"
  proof -
    have "card ?D \<le> card {1..int N}" using sub by (intro card_mono) simp_all
    then show ?thesis using distinct_card[OF assms(1)] by simp
  qed
  ultimately show ?thesis by simp
qed

lemma todo_parts_fresh:
  "doneParts ck = [] \<Longrightarrow> length (doneParts ck) + length (todo_parts ck (int (length partOffs))) \<le> length partOffs"
  by (simp add: todo_parts_def)

lemma fresh_copy_ratio:
  assumes "fresh_copy E s nm src opts = (res, s1)"
  shows "\<exists>tr. trace s1 = trace s @ tr \<and> ratios_ok tr"
proof (cases "endOffset src - startOffset src < minPartSize")
  case True
  with assms have "s1 = s" by (simp add: fresh_copy_small)
  then show ?thesis by simp
next
  case False
  then have sz: "minPartSize \<le> endOffset src - startOffset src" by simp
  show ?thesis
  proof (cases "\<exists>v. opt_partSize opts = Some v \<and> v \<noteq> 0 \<and> v < minPartSize")
    case True
    with assms sz have "s1 = s" by (auto simp: fresh_copy_small_part)
    then show ?thesis by simp
  next
    case nv: False
    note acc = fresh_copy_accepted[OF sz nv, of E s nm]
    show ?thesis
    proof (cases "initMultipartUpload E nm")
      case (Inl e)
      with assms acc have "s1 = ext_call E s (InitReq nm)" by simp
      then show ?thesis by simp
    next
      case (Inr ur)
      obtain uid x where ur: "ur = (uid, x)" by (cases ur)
      define ck where "ck = \<lparr>name = nm, copySize = endOffset src - startOffset src,
                     partSize = getPartSize E (endOffset src - startOffset src) (opt_partSize opts),
                     uploadId = uid, doneParts = []\<rparr>"
      have d: "doneParts ck = []" by (simp add: ck_def)
      have ext: "\<exists>tr. trace s1 = trace s @ tr \<and> ratios_ok tr"
        if "resumeMultipartCopy E s2 ck src opts = (res, s1)"
          and "\<exists>tr. trace s2 = trace s @ tr \<and> ratios_ok tr" for s2
      proof -
        from resumeMultipartCopy_ratio[OF that(1) todo_parts_fresh[OF d]]
        obtain tr1 where "trace s1 = trace s2 @ tr1" "ratios_ok tr1" by blast
        with that(2) show ?thesis by auto
      qed
      show ?thesis
      proof (cases "progress opts")
        case None
        with assms acc Inr ur have "resumeMultipartCopy E (ext_call E s (InitReq nm)) ck src opts = (res, s1)"
          by (simp add: ck_def Let_def)
        from ext[OF this] show ?thesis by simp
      next
        case (Some g)
        let ?s3 = "ext_call E (ext_call E s (InitReq nm)) (ProgressCall 0 ck x)"
        have t3: "\<exists>tr. trace ?s3 = trace s @ tr \<and> ratios_ok tr" by simp
        show ?thesis
        proof (cases "g 0 ck x")
          case None
          with assms acc Inr ur Some have "resumeMultipartCopy E ?s3 ck src opts = (res, s1)"
            by (simp add: ck_def Let_def)
          from ext[OF this t3] show ?thesis .
        next
          case e: (Some e)
          with assms acc Inr ur Some have "s1 = ?s3" by (auto simp: ck_def Let_def)
          with t3 show ?thesis by simp
        qed
      qed
    qed
  qed
qed

lemma multipartUploadCopy_fresh_ratio:
  assumes "is_fresh opts" and "multipartUploadCopy E s nm sd opts = (res, s1)"
  shows "\<exists>tr. trace s1 = trace s @ tr \<and> ratios_ok tr"
proof (cases "head E (sourceBucketName sd) (sourceKey sd)")
  case (Inl e)
  with assms(2) have "trace s1 = trace s @ [HeadReq (sourceBucketName sd) (sourceKey sd)]"
    by (auto simp: multipartUploadCopy_head_failed after_head_def)
  then show ?thesis by simp
next
  case (Inr d)
  from assms multipartUploadCopy_fresh[OF Inr assms(1)]
  have "fresh_copy E (after_head E s sd) nm (defaulted sd d) opts = (res, s1)" by simp
  from fresh_copy_ratio[OF this] obtain tr where "trace s1 = trace (after_head E s sd) @ tr" "ratios_ok tr"
    by blast
  then have "trace s1 = trace s @ ([HeadReq (sourceBucketName sd) (sourceKey sd)] @ tr)
             \<and> ratios_ok ([HeadReq (sourceBucketName sd) (sourceKey sd)] @ tr)"
    by (simp add: after_head_def)
  then show ?thesis by blast
qed

lemma job_finish_recorded:
  assumes "nth_opt partOffs (p - 1) = Some po" and "request E p = Inr r" and "\<not> isCancel s"
    and "\<not> cancelDuring E (PartCopyReq (name ck) (uploadId ck) p (range_of po)
            (sourceBucketName src) (sourceKey src))"
    and "uploadPartJob_finish E opts ck partOffs src p s = (x, s1)"
  shows "done_array s1 = done_array s @ [\<lparr>number = p, etag = headers_etag r\<rparr>]"
    and "progress opts = None \<Longrightarrow> trace s1 = trace s \<and> x = None"
    and "progress opts = Some g \<Longrightarrow>
           trace s1 = trace s @
             [ProgressCall (of_nat (length (done_array s1)) / of_int (int (length partOffs)))
                (ck\<lparr>doneParts := done_array s1\<rparr>) r]
           \<and> x = map_option (catch_partNum p)
                 (g (of_nat (length (done_array s1)) / of_int (int (length partOffs)))
                    (ck\<lparr>doneParts := done_array s1\<rparr>) r)"
  using assms
  by (auto simp: uploadPartJob_finish_def uploadPartCopy_recv_def arrive_def Let_def isCancel_def
      checkpoint_of_def split: option.splits)

lemma fresh_progress_zero:
  assumes h: "head E (sourceBucketName sd) (sourceKey sd) = Inr d" and fr: "is_fresh opts"
    and sz: "minPartSize \<le> js_or (endOffset sd) d - js_or (startOffset sd) 0"
    and nv: "\<not> (\<exists>v. opt_partSize opts = Some v \<and> v \<noteq> 0 \<and> v < minPartSize)"
    and init: "initMultipartUpload E nm = Inr (uid, r0)" and pr: "progress opts = Some g"
    and run: "multipartUploadCopy E s nm sd opts = (res, s1)"
  shows "prefix (trace s @ [HeadReq (sourceBucketName sd) (sourceKey sd), InitReq nm,
           ProgressCall 0
             \<lparr>name = nm, copySize = js_or (endOffset sd) d - js_or (startOffset sd) 0,
              partSize = getPartSize E (js_or (endOffset sd) d - js_or (startOffset sd) 0) (opt_partSize opts),
              uploadId = uid, doneParts = []\<rparr> r0]) (trace s1)"
proof -
  let ?src = "defaulted sd d"
  let ?ck = "\<lparr>name = nm, copySize = endOffset ?src - startOffset ?src,
              partSize = getPartSize E (endOffset ?src - startOffset ?src) (opt_partSize opts),
              uploadId = uid, doneParts = []\<rparr>"
  let ?s3 = "ext_call E (ext_call E (after_head E s sd) (InitReq nm)) (ProgressCall 0 ?ck r0)"
  have sz': "minPartSize \<le> endOffset ?src - startOffset ?src" using sz by (simp add: defaulted_def)
  have t3: "trace ?s3 = trace s @ [HeadReq (sourceBucketName sd) (sourceKey sd), InitReq nm, ProgressCall 0 ?ck r0]"
    by (simp add: after_head_def)
  have ckeq: "?ck = \<lparr>name = nm, copySize = js_or (endOffset sd) d - js_or (startOffset sd) 0,
              partSize = getPartSize E (js_or (endOffset sd) d - js_or (startOffset sd) 0) (opt_partSize opts),
              uploadId = uid, doneParts = []\<rparr>"
    by (simp add: defaulted_def)
  from run multipartUploadCopy_fresh[OF h fr]
  have f: "fresh_copy E (after_head E s sd) nm ?src opts = (res, s1)" by simp
  have "prefix (trace ?s3) (trace s1)"
  proof (cases "g 0 ?ck r0")
    case None
    with f init pr have "resumeMultipartCopy E ?s3 ?ck ?src opts = (res, s1)"
      by (simp add: fresh_copy_accepted[OF sz' nv] Let_def)
    then show ?thesis by (rule resumeMultipartCopy_trace)
  next
    case (Some e)
    with f init pr have "s1 = ?s3"
      by (auto simp: fresh_copy_accepted[OF sz' nv] Let_def)
    then show ?thesis by simp
  qed
  then show ?thesis by (simp add: after_head_def defaulted_def)
qed

section \<open>Cancellation\<close>

lemma resumeMultipartCopy_cancelled:
  "isCancel s \<Longrightarrow>
   resumeMultipartCopy E s ck src opts = (Some (Inl CancelEvent), s\<lparr>done_array := doneParts ck\<rparr>)"
  by (simp add: resumeMultipartCopy_def isCancel_def)

lemma small_part_option:
  "(truthy (opt_partSize opts) \<and> the (opt_partSize opts) < minPartSize) =
   (\<exists>v. opt_partSize opts = Some v \<and> v \<noteq> 0 \<and> v < minPartSize)"
  by (auto simp: truthy_def split: option.splits)

text \<open>A fresh copy during whose head request or initiation the caller cancels.\<close>

lemma ext_call_cancelled:
  "cancelFlag t \<or> cancelDuring E ev \<Longrightarrow> ext_call E t ev = t\<lparr>cancelFlag := True, trace := trace t @ [ev]\<rparr>"
  "cancelFlag t \<Longrightarrow> ext_call E t ev = t\<lparr>trace := trace t @ [ev]\<rparr>"
  by (auto simp: ext_call_def issue_def arrive_def)

lemma fresh_copy_cancelled:
  assumes "cancelFlag s1 \<or> cancelDuring E (InitReq nm)"
  shows "fresh_copy E s1 nm src opts =
     (let cs = endOffset src - startOffset src
      in if cs < minPartSize then (Some (Inl copySize_error), s1)
         else if \<exists>v. opt_partSize opts = Some v \<and> v \<noteq> 0 \<and> v < minPartSize
           then (Some (Inl partSize_error), s1)
         else
           (let s2 = s1\<lparr>cancelFlag := True, trace := trace s1 @ [InitReq nm]\<rparr>
            in case initMultipartUpload E nm of
                 Inl e \<Rightarrow> (Some (Inl (Thrown e)), s2)
               | Inr (uid, r) \<Rightarrow>
                   (let ck = \<lparr>name = nm, copySize = cs, partSize = getPartSize E cs (opt_partSize opts),
                              uploadId = uid, doneParts = []\<rparr>
                    in case progress opts of
                         None \<Rightarrow> (Some (Inl CancelEvent), s2\<lparr>done_array := []\<rparr>)
                       | Some f \<Rightarrow>
                           (let s3 = s2\<lparr>trace := trace s2 @ [ProgressCall 0 ck r]\<rparr>
                            in case f 0 ck r of
                                 Some e \<Rightarrow> (Some (Inl (Thrown e)), s3)
                               | None \<Rightarrow> (Some (Inl CancelEvent), s3\<lparr>done_array := []\<rparr>)))))"
proof -
  let ?s2 = "s1\<lparr>cancelFlag := True, trace := trace s1 @ [InitReq nm]\<rparr>"
  have e2: "ext_call E s1 (InitReq nm) = ?s2" using assms by (rule ext_call_cancelled(1))
  have e3: "ext_call E ?s2 ev = ?s2\<lparr>trace := trace ?s2 @ [ev]\<rparr>" for ev
    by (rule ext_call_cancelled(2)) simp
  show ?thesis
  proof (cases "endOffset src - startOffset src < minPartSize")
    case True
    then show ?thesis by (simp add: fresh_copy_small)
  next
    case False
    then have sz: "minPartSize \<le> endOffset src - startOffset src" by simp
    show ?thesis
    proof (cases "\<exists>v. opt_partSize opts = Some v \<and> v \<noteq> 0 \<and> v < minPartSize")
      case True
      then obtain v where "opt_partSize opts = Some v" "v \<noteq> 0" "v < minPartSize" by blast
      from fresh_copy_small_part[OF sz this] False True show ?thesis by simp
    next
      case nv: False
      have f1: "(endOffset src - startOffset src < minPartSize) = False" using False by simp
      have f2: "(\<exists>v. opt_partSize opts = Some v \<and> v \<noteq> 0 \<and> v < minPartSize) = False"
        using nv by simp
      show ?thesis
        unfolding fresh_copy_accepted[OF sz nv] Let_def f1 f2 if_False e2 e3
        by (simp add: resumeMultipartCopy_cancelled isCancel_def
            split: sum.splits prod.splits option.splits)
    qed
  qed
qed

lemma fresh_copy_cancelled_no_copy:
  assumes "cancelFlag s1 \<or> cancelDuring E (InitReq nm)"
  shows "List.map_filter part_copy_no (trace (snd (fresh_copy E s1 nm src opts))) =
         List.map_filter part_copy_no (trace s1)"
  unfolding fresh_copy_cancelled[OF assms]
  by (simp add: Let_def map_filter_append split: sum.splits prod.splits option.splits)

text \<open>
  C3, as the code has it. \<open>multipartUploadCopy\<close> clears the cancellation flag on entry, so
  a flag set before the invocation has no effect on it. A resumption that starts with the flag
  set raises the cancel event without any call; a part job that starts with the flag set
  sends no request and ends without error. When the caller requests cancellation during the
  head request, or during the initiation of a fresh copy, the invocation issues no part copy.
  After a head request that succeeded it then raises the cancel event, unless a step of the
  fresh start fails before the resumption begins: the validation, the initiation or the first
  call of the progress callback, whose error is raised instead.
\<close>

theorem cancellation_after_reset:
  "multipartUploadCopy E (s\<lparr>cancelFlag := True\<rparr>) nm sd opts =
     multipartUploadCopy E (s\<lparr>cancelFlag := False\<rparr>) nm sd opts
   \<and> (isCancel s \<longrightarrow>
        resumeMultipartCopy E s ck src opts = (Some (Inl CancelEvent), s\<lparr>done_array := doneParts ck\<rparr>))
   \<and> (isCancel s \<longrightarrow>
        uploadPartJob_start ck partOffs src p s = (Skipped, s) \<and>
        uploadPartJob E opts ck partOffs src p s = (None, s))
   \<and> (cancelDuring E (HeadReq (sourceBucketName sd) (sourceKey sd)) \<or>
      is_fresh opts \<and> cancelDuring E (InitReq nm) \<longrightarrow>
        List.map_filter part_copy_no (trace (snd (multipartUploadCopy E s nm sd opts))) =
        List.map_filter part_copy_no (trace s))
   \<and> (\<forall>d. head E (sourceBucketName sd) (sourceKey sd) = Inr d \<and>
          cancelDuring E (HeadReq (sourceBucketName sd) (sourceKey sd)) \<and>
          opt_checkpoint opts = Some ck \<and> uploadId ck \<noteq> [] \<longrightarrow>
        multipartUploadCopy E s nm sd opts =
          (Some (Inl CancelEvent),
           s\<lparr>cancelFlag := True,
             trace := trace s @ [HeadReq (sourceBucketName sd) (sourceKey sd)],
             done_array := doneParts ck\<rparr>))
   \<and> (\<forall>d. head E (sourceBucketName sd) (sourceKey sd) = Inr d \<and> is_fresh opts \<and>
          (cancelDuring E (HeadReq (sourceBucketName sd) (sourceKey sd)) \<or>
           cancelDuring E (InitReq nm)) \<longrightarrow>
        multipartUploadCopy E s nm sd opts =
          (let s1 = s\<lparr>cancelFlag := cancelDuring E (HeadReq (sourceBucketName sd) (sourceKey sd)),
                      trace := trace s @ [HeadReq (sourceBucketName sd) (sourceKey sd)]\<rparr>;
               cs = js_or (endOffset sd) d - js_or (startOffset sd) 0
           in if cs < minPartSize then (Some (Inl copySize_error), s1)
              else if \<exists>v. opt_partSize opts = Some v \<and> v \<noteq> 0 \<and> v < minPartSize
                then (Some (Inl partSize_error), s1)
              else
                (let s2 = s1\<lparr>cancelFlag := True, trace := trace s1 @ [InitReq nm]\<rparr>
                 in case initMultipartUpload E nm of
                      Inl e \<Rightarrow> (Some (Inl (Thrown e)), s2)
                    | Inr (uid, r) \<Rightarrow>
                        (let ck0 = \<lparr>name = nm, copySize = cs,
                                    partSize = getPartSize E cs (opt_partSize opts),
                                    uploadId = uid, doneParts = []\<rparr>
                         in case progress opts of
                              None \<Rightarrow> (Some (Inl CancelEvent), s2\<lparr>done_array := []\<rparr>)
                            | Some f \<Rightarrow>
                                (let s3 = s2\<lparr>trace := trace s2 @ [ProgressCall 0 ck0 r]\<rparr>
                                 in case f 0 ck0 r of
                                      Some e \<Rightarrow> (Some (Inl (Thrown e)), s3)
                                    | None \<Rightarrow> (Some (Inl CancelEvent), s3\<lparr>done_array := []\<rparr>))))))"
proof (intro conjI allI impI)
  show "multipartUploadCopy E (s\<lparr>cancelFlag := True\<rparr>) nm sd opts =
     multipartUploadCopy E (s\<lparr>cancelFlag := False\<rparr>) nm sd opts"
    by (simp add: multipartUploadCopy_def resetCancelFlag_def)
next
  assume "isCancel s"
  then show "resumeMultipartCopy E s ck src opts = (Some (Inl CancelEvent), s\<lparr>done_array := doneParts ck\<rparr>)"
    by (rule resumeMultipartCopy_cancelled)
next
  assume "isCancel s"
  then show "uploadPartJob_start ck partOffs src p s = (Skipped, s)"
    by (simp add: uploadPartJob_start_def)
next
  assume "isCancel s"
  then show "uploadPartJob E opts ck partOffs src p s = (None, s)"
    by (simp add: uploadPartJob_def uploadPartJob_start_def)
next
  assume c: "cancelDuring E (HeadReq (sourceBucketName sd) (sourceKey sd)) \<or>
      is_fresh opts \<and> cancelDuring E (InitReq nm)"
  show "List.map_filter part_copy_no (trace (snd (multipartUploadCopy E s nm sd opts))) =
        List.map_filter part_copy_no (trace s)"
  proof (cases "head E (sourceBucketName sd) (sourceKey sd)")
    case (Inl e)
    then show ?thesis
      by (simp add: multipartUploadCopy_head_failed after_head_def map_filter_append)
  next
    case (Inr d)
    have h: "List.map_filter part_copy_no (trace (after_head E s sd)) = List.map_filter part_copy_no (trace s)"
      by (simp add: after_head_def map_filter_append)
    show ?thesis
    proof (cases "is_fresh opts")
      case True
      have "cancelFlag (after_head E s sd) \<or> cancelDuring E (InitReq nm)"
        using c by (auto simp: after_head_def)
      from fresh_copy_cancelled_no_copy[OF this] h show ?thesis
        by (simp add: multipartUploadCopy_fresh[OF Inr True])
    next
      case False
      then obtain ck' where ck': "opt_checkpoint opts = Some ck'" "uploadId ck' \<noteq> []"
        by (auto simp: is_fresh_def split: option.splits)
      have "isCancel (after_head E s sd)" using c False by (simp add: isCancel_def after_head_def)
      from resumeMultipartCopy_cancelled[OF this] h ck' show ?thesis
        by (simp add: multipartUploadCopy_head_ok[OF Inr])
    qed
  qed
next
  fix d
  assume a: "head E (sourceBucketName sd) (sourceKey sd) = Inr d \<and>
          cancelDuring E (HeadReq (sourceBucketName sd) (sourceKey sd)) \<and>
          opt_checkpoint opts = Some ck \<and> uploadId ck \<noteq> []"
  then have c: "isCancel (after_head E s sd)" by (simp add: isCancel_def after_head_def)
  from a have "multipartUploadCopy E s nm sd opts =
      resumeMultipartCopy E (after_head E s sd) ck (defaulted sd d) opts"
    by (simp add: multipartUploadCopy_head_ok)
  also have "\<dots> = (Some (Inl CancelEvent), (after_head E s sd)\<lparr>done_array := doneParts ck\<rparr>)"
    using c by (rule resumeMultipartCopy_cancelled)
  finally show "multipartUploadCopy E s nm sd opts =
          (Some (Inl CancelEvent),
           s\<lparr>cancelFlag := True,
             trace := trace s @ [HeadReq (sourceBucketName sd) (sourceKey sd)],
             done_array := doneParts ck\<rparr>)"
    using a by (simp add: after_head_def)
next
  fix d
  assume a: "head E (sourceBucketName sd) (sourceKey sd) = Inr d \<and> is_fresh opts \<and>
          (cancelDuring E (HeadReq (sourceBucketName sd) (sourceKey sd)) \<or>
           cancelDuring E (InitReq nm))"
  have c: "cancelFlag (after_head E s sd) \<or> cancelDuring E (InitReq nm)"
    using a by (auto simp: after_head_def)
  from a have m: "multipartUploadCopy E s nm sd opts = fresh_copy E (after_head E s sd) nm (defaulted sd d) opts"
    by (simp add: multipartUploadCopy_fresh)
  show "multipartUploadCopy E s nm sd opts =
          (let s1 = s\<lparr>cancelFlag := cancelDuring E (HeadReq (sourceBucketName sd) (sourceKey sd)),
                      trace := trace s @ [HeadReq (sourceBucketName sd) (sourceKey sd)]\<rparr>;
               cs = js_or (endOffset sd) d - js_or (startOffset sd) 0
           in if cs < minPartSize then (Some (Inl copySize_error), s1)
              else if \<exists>v. opt_partSize opts = Some v \<and> v \<noteq> 0 \<and> v < minPartSize
                then (Some (Inl partSize_error), s1)
              else
                (let s2 = s1\<lparr>cancelFlag := True, trace := trace s1 @ [InitReq nm]\<rparr>
                 in case initMultipartUpload E nm of
                      Inl e \<Rightarrow> (Some (Inl (Thrown e)), s2)
                    | Inr (uid, r) \<Rightarrow>
                        (let ck0 = \<lparr>name = nm, copySize = cs,
                                    partSize = getPartSize E cs (opt_partSize opts),
                                    uploadId = uid, doneParts = []\<rparr>
                         in case progress opts of
                              None \<Rightarrow> (Some (Inl CancelEvent), s2\<lparr>done_array := []\<rparr>)
                            | Some f \<Rightarrow>
                                (let s3 = s2\<lparr>trace := trace s2 @ [ProgressCall 0 ck0 r]\<rparr>
                                 in case f 0 ck0 r of
                                      Some e \<Rightarrow> (Some (Inl (Thrown e)), s3)
                                    | None \<Rightarrow> (Some (Inl CancelEvent), s3\<lparr>done_array := []\<rparr>)))))"
    unfolding m fresh_copy_cancelled[OF c]
    by (auto simp: after_head_def defaulted_def Let_def)
qed

theorem cancellation_after_reset_witness:
  "isCancel (demo_state\<lparr>cancelFlag := True\<rparr>)
   \<and> resumeMultipartCopy demo_env (demo_state\<lparr>cancelFlag := True\<rparr>)
        (demo_checkpoint 500000 102400 []) demo_range demo_options =
       (Some (Inl CancelEvent), demo_state\<lparr>cancelFlag := True\<rparr>)
   \<and> uploadPartJob demo_env demo_options (demo_checkpoint 500000 102400 [])
        (map (part_at 500000 102400 0) [0..4]) demo_range 1
        (demo_state\<lparr>cancelFlag := True\<rparr>) = (None, demo_state\<lparr>cancelFlag := True\<rparr>)
   \<and> cancelDuring (demo_env\<lparr>cancelDuring := \<lambda>ev. ev = HeadReq ''src'' ''key''\<rparr>) (HeadReq ''src'' ''key'')
   \<and> multipartUploadCopy (demo_env\<lparr>cancelDuring := \<lambda>ev. ev = HeadReq ''src'' ''key''\<rparr>) demo_state ''obj''
        (demo_source None None)
        (demo_options\<lparr>opt_checkpoint := Some (demo_checkpoint 500000 102400 [])\<rparr>) =
       (Some (Inl CancelEvent),
        demo_state\<lparr>cancelFlag := True, trace := [HeadReq ''src'' ''key'']\<rparr>)
   \<and> is_fresh demo_options
   \<and> multipartUploadCopy (demo_env\<lparr>cancelDuring := \<lambda>ev. ev = HeadReq ''src'' ''key''\<rparr>) demo_state ''obj''
        (demo_source None None) demo_options =
       (Some (Inl CancelEvent),
        demo_state\<lparr>cancelFlag := True, trace := [HeadReq ''src'' ''key'', InitReq ''obj'']\<rparr>)
   \<and> List.map_filter part_copy_no
        (trace (snd (multipartUploadCopy (demo_env\<lparr>cancelDuring := \<lambda>ev. ev = HeadReq ''src'' ''key''\<rparr>)
                       demo_state ''obj'' (demo_source None None) demo_options))) = []
   \<and> multipartUploadCopy (demo_env\<lparr>cancelDuring := \<lambda>ev. ev = HeadReq ''src'' ''key''\<rparr>) demo_state ''obj''
        (demo_source None None) (demo_options\<lparr>progress := Some (\<lambda>q c x. Some (new_Error ''stop''))\<rparr>) =
       (Some (Inl (Thrown (new_Error ''stop''))),
        demo_state\<lparr>cancelFlag := True,
          trace := [HeadReq ''src'' ''key'', InitReq ''obj'',
                    ProgressCall 0 \<lparr>name = ''obj'', copySize = 500000, partSize = 1048576,
                                    uploadId = ''uid'', doneParts = []\<rparr> (ok_res [])]\<rparr>)"
proof -
  let ?E = "demo_env\<lparr>cancelDuring := \<lambda>ev. ev = HeadReq ''src'' ''key''\<rparr>"
  let ?ck = "demo_checkpoint 500000 102400 []"
  let ?po = "demo_options\<lparr>progress := Some (\<lambda>q c x. Some (new_Error ''stop''))\<rparr>"
  have c: "isCancel (demo_state\<lparr>cancelFlag := True\<rparr>)" by (simp add: isCancel_def)
  have fr: "is_fresh demo_options" "is_fresh ?po" by (simp_all add: is_fresh_def demo_defs)
  have hd: "head ?E (sourceBucketName (demo_source None None)) (sourceKey (demo_source None None)) = Inr 500000"
    by (simp add: demo_defs)
  have cd: "cancelDuring ?E (HeadReq (sourceBucketName (demo_source None None)) (sourceKey (demo_source None None)))"
    by (simp add: demo_defs)
  note a = cancellation_after_reset[where E = demo_env and s = "demo_state\<lparr>cancelFlag := True\<rparr>"
      and ck = ?ck and src = demo_range and opts = demo_options
      and partOffs = "map (part_at 500000 102400 0) [0..4]" and p = 1]
  note b = cancellation_after_reset[where E = ?E and s = demo_state and nm = "''obj''"
      and sd = "demo_source None None" and ck = ?ck
      and opts = "demo_options\<lparr>opt_checkpoint := Some ?ck\<rparr>"]
  note f = cancellation_after_reset[where E = ?E and s = demo_state and nm = "''obj''"
      and sd = "demo_source None None" and opts = demo_options]
  note g = cancellation_after_reset[where E = ?E and s = demo_state and nm = "''obj''"
      and sd = "demo_source None None" and opts = ?po]
  have 1: "resumeMultipartCopy demo_env (demo_state\<lparr>cancelFlag := True\<rparr>) ?ck demo_range demo_options =
       (Some (Inl CancelEvent), demo_state\<lparr>cancelFlag := True\<rparr>)"
    using a c by (simp add: demo_checkpoint_def demo_state_def)
  have 2: "uploadPartJob demo_env demo_options ?ck (map (part_at 500000 102400 0) [0..4]) demo_range 1
        (demo_state\<lparr>cancelFlag := True\<rparr>) = (None, demo_state\<lparr>cancelFlag := True\<rparr>)"
    using a c by blast
  have 3: "multipartUploadCopy ?E demo_state ''obj'' (demo_source None None)
        (demo_options\<lparr>opt_checkpoint := Some ?ck\<rparr>) =
       (Some (Inl CancelEvent), demo_state\<lparr>cancelFlag := True, trace := [HeadReq ''src'' ''key'']\<rparr>)"
    using b by (simp add: demo_defs demo_checkpoint_def)
  have 4: "multipartUploadCopy ?E demo_state ''obj'' (demo_source None None) demo_options =
       (Some (Inl CancelEvent),
        demo_state\<lparr>cancelFlag := True, trace := [HeadReq ''src'' ''key'', InitReq ''obj'']\<rparr>)"
    using f fr(1) hd cd by (simp add: demo_defs js_or_def minPartSize_def Let_def)
  have 5: "List.map_filter part_copy_no
        (trace (snd (multipartUploadCopy ?E demo_state ''obj'' (demo_source None None) demo_options))) = []"
    using f cd by (simp add: demo_state_def)
  have 6: "multipartUploadCopy ?E demo_state ''obj'' (demo_source None None) ?po =
       (Some (Inl (Thrown (new_Error ''stop''))),
        demo_state\<lparr>cancelFlag := True,
          trace := [HeadReq ''src'' ''key'', InitReq ''obj'',
                    ProgressCall 0 \<lparr>name = ''obj'', copySize = 500000, partSize = 1048576,
                                    uploadId = ''uid'', doneParts = []\<rparr> (ok_res [])]\<rparr>)"
    using g fr(2) hd cd by (simp add: demo_defs js_or_def minPartSize_def Let_def)
  show ?thesis using c 1 2 3 4 5 6 fr(1) by (simp add: demo_defs)
qed

text \<open>
  With the flag set before the invocation and nobody cancelling during it, the copy runs
  to completion: the part is copied and the upload completed.
\<close>

theorem cancel_before_invocation_counterexample:
  "multipartUploadCopy demo_env (demo_state\<lparr>cancelFlag := True\<rparr>) ''obj'' (demo_source None None)
     demo_sequential =
   (Some (Inr (ok_res ''final'')),
    \<lparr>bucket = ''dst'', cancelFlag = False,
     trace = [HeadReq ''src'' ''key'', InitReq ''obj'',
              PartCopyReq ''obj'' ''uid'' 1 (Num 0, Num 499999) ''src'' ''key'',
              CompleteReq ''obj'' ''uid'' [\<lparr>number = 1, etag = ''1''\<rparr>]],
     done_array = [\<lparr>number = 1, etag = ''1''\<rparr>]\<rparr>)"
  by (simp add: run_defs demo_defs demo_sequential_def)

section \<open>Validation\<close>

text \<open>
  C4, as the code has it. The validation of a fresh invocation runs after the head request
  for the source has returned and before any other call: when the copy size or a non-zero
  \<open>partSize\<close> option is below the minimum, the invocation throws the validation error, the
  head request is the only call it has issued, and the client is as before but for the cancel
  flag, which was reset (and is set if the caller cancelled during the head request).
\<close>

theorem validation_error_after_head_only:
  assumes "head E (sourceBucketName sd) (sourceKey sd) = Inr d"
    and "is_fresh opts"
    and "js_or (endOffset sd) d - js_or (startOffset sd) 0 < minPartSize
         \<or> (\<exists>v. opt_partSize opts = Some v \<and> v \<noteq> 0 \<and> v < minPartSize)"
  shows "\<exists>t. (t = copySize_error \<or> t = partSize_error) \<and>
     multipartUploadCopy E s nm sd opts =
       (Some (Inl t), s\<lparr>cancelFlag := cancelDuring E (HeadReq (sourceBucketName sd) (sourceKey sd)),
                       trace := trace s @ [HeadReq (sourceBucketName sd) (sourceKey sd)]\<rparr>)"
proof (cases "js_or (endOffset sd) d - js_or (startOffset sd) 0 < minPartSize")
  case True
  then have "endOffset (defaulted sd d) - startOffset (defaulted sd d) < minPartSize"
    by (simp add: defaulted_def)
  then have "multipartUploadCopy E s nm sd opts = (Some (Inl copySize_error), after_head E s sd)"
    using assms(1,2) by (simp add: multipartUploadCopy_fresh fresh_copy_small)
  then show ?thesis by (auto simp: after_head_def)
next
  case False
  then obtain v where v: "opt_partSize opts = Some v" "v \<noteq> 0" "v < minPartSize"
    using assms(3) by blast
  from False have "minPartSize \<le> endOffset (defaulted sd d) - startOffset (defaulted sd d)"
    by (simp add: defaulted_def)
  then have "multipartUploadCopy E s nm sd opts = (Some (Inl partSize_error), after_head E s sd)"
    using assms(1,2) v by (simp add: multipartUploadCopy_fresh fresh_copy_small_part)
  then show ?thesis by (auto simp: after_head_def)
qed

theorem validation_error_after_head_only_witness:
  "head demo_env ''src'' ''key'' = Inr 500000 \<and> is_fresh demo_options
   \<and> js_or (Some 1000) 500000 - js_or (Some 0) 0 < minPartSize
   \<and> multipartUploadCopy demo_env demo_state ''obj'' (demo_source (Some 0) (Some 1000)) demo_options =
       (Some (Inl copySize_error), demo_state\<lparr>trace := [HeadReq ''src'' ''key'']\<rparr>)"
proof -
  have h: "head demo_env (sourceBucketName (demo_source (Some 0) (Some 1000)))
             (sourceKey (demo_source (Some 0) (Some 1000))) = Inr 500000"
    by (simp add: demo_defs)
  have f: "is_fresh demo_options" by (simp add: is_fresh_def demo_defs)
  have b: "js_or (endOffset (demo_source (Some 0) (Some 1000))) 500000
           - js_or (startOffset (demo_source (Some 0) (Some 1000))) 0 < minPartSize
         \<or> (\<exists>v. opt_partSize demo_options = Some v \<and> v \<noteq> 0 \<and> v < minPartSize)"
    by (simp add: demo_defs js_or_def minPartSize_def)
  from validation_error_after_head_only[OF h f b, of demo_state "''obj''"]
  have "multipartUploadCopy demo_env demo_state ''obj'' (demo_source (Some 0) (Some 1000)) demo_options =
       (Some (Inl copySize_error), demo_state\<lparr>trace := [HeadReq ''src'' ''key'']\<rparr>)"
    by (auto simp: demo_defs copySize_error_def partSize_error_def new_Error_def
        multipartUploadCopy_def getObjectMeta_cases resetCancelFlag_def fresh_copy_def js_or_def minPartSize_def)
  then show ?thesis using f by (simp add: demo_defs js_or_def minPartSize_def)
qed

text \<open>
  A fresh invocation for 1000 bytes: the validation error comes after a head request.
\<close>

theorem validation_before_any_remote_call_counterexample:
  "multipartUploadCopy demo_env demo_state ''obj'' (demo_source (Some 0) (Some 1000)) demo_options =
   (Some (Inl (Thrown \<lparr>ename = ''Error'', message = ''copySize must not be smaller than 102400'',
                       partNum = None\<rparr>)),
    demo_state\<lparr>trace := [HeadReq ''src'' ''key'']\<rparr>)"
  by (simp add: run_defs demo_defs)

text \<open>
  C6, as the code has it. Once the head request has returned, a fresh invocation with a
  copy size below \<open>minPartSize\<close> (100 KiB) throws the copy-size error, and one with a copy size
  of at least \<open>minPartSize\<close> and a non-zero \<open>partSize\<close> option below \<open>minPartSize\<close> throws the
  part-size error; neither initiates an upload: the head request is the only call. Otherwise
  (in particular with a copy size of exactly \<open>minPartSize\<close>, and with a \<open>partSize\<close> option of
  0, which counts as absent) the validation passes and the invocation initiates the upload:
  the initiation is its next call after the head request.
\<close>

theorem minimum_size_rejection:
  assumes "head E (sourceBucketName sd) (sourceKey sd) = Inr d"
    and "is_fresh opts"
  shows "(js_or (endOffset sd) d - js_or (startOffset sd) 0 < minPartSize \<longrightarrow>
          multipartUploadCopy E s nm sd opts =
            (Some (Inl copySize_error),
             s\<lparr>cancelFlag := cancelDuring E (HeadReq (sourceBucketName sd) (sourceKey sd)),
               trace := trace s @ [HeadReq (sourceBucketName sd) (sourceKey sd)]\<rparr>))
     \<and> (minPartSize \<le> js_or (endOffset sd) d - js_or (startOffset sd) 0 \<and>
          (\<exists>v. opt_partSize opts = Some v \<and> v \<noteq> 0 \<and> v < minPartSize) \<longrightarrow>
          multipartUploadCopy E s nm sd opts =
            (Some (Inl partSize_error),
             s\<lparr>cancelFlag := cancelDuring E (HeadReq (sourceBucketName sd) (sourceKey sd)),
               trace := trace s @ [HeadReq (sourceBucketName sd) (sourceKey sd)]\<rparr>))
     \<and> (minPartSize \<le> js_or (endOffset sd) d - js_or (startOffset sd) 0 \<and>
          \<not> (\<exists>v. opt_partSize opts = Some v \<and> v \<noteq> 0 \<and> v < minPartSize) \<longrightarrow>
          prefix (trace s @ [HeadReq (sourceBucketName sd) (sourceKey sd), InitReq nm])
            (trace (snd (multipartUploadCopy E s nm sd opts))))"
proof (intro conjI impI)
  assume "js_or (endOffset sd) d - js_or (startOffset sd) 0 < minPartSize"
  then have "endOffset (defaulted sd d) - startOffset (defaulted sd d) < minPartSize"
    by (simp add: defaulted_def)
  then show "multipartUploadCopy E s nm sd opts =
            (Some (Inl copySize_error),
             s\<lparr>cancelFlag := cancelDuring E (HeadReq (sourceBucketName sd) (sourceKey sd)),
               trace := trace s @ [HeadReq (sourceBucketName sd) (sourceKey sd)]\<rparr>)"
    using assms by (simp add: multipartUploadCopy_fresh fresh_copy_small after_head_def)
next
  assume a: "minPartSize \<le> js_or (endOffset sd) d - js_or (startOffset sd) 0 \<and>
          (\<exists>v. opt_partSize opts = Some v \<and> v \<noteq> 0 \<and> v < minPartSize)"
  then obtain v where v: "opt_partSize opts = Some v" "v \<noteq> 0" "v < minPartSize" by blast
  from a have "minPartSize \<le> endOffset (defaulted sd d) - startOffset (defaulted sd d)"
    by (simp add: defaulted_def)
  then show "multipartUploadCopy E s nm sd opts =
            (Some (Inl partSize_error),
             s\<lparr>cancelFlag := cancelDuring E (HeadReq (sourceBucketName sd) (sourceKey sd)),
               trace := trace s @ [HeadReq (sourceBucketName sd) (sourceKey sd)]\<rparr>)"
    using assms v by (simp add: multipartUploadCopy_fresh fresh_copy_small_part after_head_def)
next
  assume a: "minPartSize \<le> js_or (endOffset sd) d - js_or (startOffset sd) 0 \<and>
          \<not> (\<exists>v. opt_partSize opts = Some v \<and> v \<noteq> 0 \<and> v < minPartSize)"
  then have sz: "minPartSize \<le> endOffset (defaulted sd d) - startOffset (defaulted sd d)"
    and nv: "\<not> (\<exists>v. opt_partSize opts = Some v \<and> v \<noteq> 0 \<and> v < minPartSize)"
    by (simp_all add: defaulted_def)
  have eq: "multipartUploadCopy E s nm sd opts = fresh_copy E (after_head E s sd) nm (defaulted sd d) opts"
    using assms by (rule multipartUploadCopy_fresh)
  obtain r s' where run: "fresh_copy E (after_head E s sd) nm (defaulted sd d) opts = (r, s')"
    by (cases "fresh_copy E (after_head E s sd) nm (defaulted sd d) opts")
  from fresh_copy_accepted_trace[OF run sz nv]
  show "prefix (trace s @ [HeadReq (sourceBucketName sd) (sourceKey sd), InitReq nm])
            (trace (snd (multipartUploadCopy E s nm sd opts)))"
    unfolding eq run by (simp add: after_head_def)
qed

theorem minimum_size_rejection_witness:
  "head demo_env ''src'' ''key'' = Inr 500000 \<and> is_fresh demo_sequential
   \<and> js_or (Some (minPartSize - 1)) 500000 - js_or (Some 0) 0 < minPartSize
   \<and> multipartUploadCopy demo_env demo_state ''obj''
        (demo_source (Some 0) (Some (minPartSize - 1))) demo_sequential =
       (Some (Inl copySize_error), demo_state\<lparr>trace := [HeadReq ''src'' ''key'']\<rparr>)
   \<and> minPartSize \<le> js_or (Some minPartSize) 500000 - js_or (Some 0) 0
   \<and> opt_partSize (demo_sequential\<lparr>opt_partSize := Some 1000\<rparr>) = Some 1000 \<and> (1000::int) < minPartSize
   \<and> multipartUploadCopy demo_env demo_state ''obj''
        (demo_source (Some 0) (Some minPartSize)) (demo_sequential\<lparr>opt_partSize := Some 1000\<rparr>) =
       (Some (Inl partSize_error), demo_state\<lparr>trace := [HeadReq ''src'' ''key'']\<rparr>)
   \<and> opt_partSize demo_sequential = None
   \<and> prefix ([] @ [HeadReq ''src'' ''key'', InitReq ''obj''])
        (trace (snd (multipartUploadCopy demo_env demo_state ''obj''
                       (demo_source (Some 0) (Some minPartSize)) demo_sequential)))
   \<and> multipartUploadCopy demo_env demo_state ''obj''
        (demo_source (Some 0) (Some minPartSize)) demo_sequential =
       (Some (Inr (ok_res ''final'')),
        \<lparr>bucket = ''dst'', cancelFlag = False,
         trace = [HeadReq ''src'' ''key'', InitReq ''obj'',
                  PartCopyReq ''obj'' ''uid'' 1 (Num 0, Num 102399) ''src'' ''key'',
                  CompleteReq ''obj'' ''uid'' [\<lparr>number = 1, etag = ''1''\<rparr>]],
         done_array = [\<lparr>number = 1, etag = ''1''\<rparr>]\<rparr>)"
proof -
  have f: "is_fresh demo_sequential" "is_fresh (demo_sequential\<lparr>opt_partSize := Some 1000\<rparr>)"
    by (simp_all add: is_fresh_def demo_defs demo_sequential_def)
  have h1: "head demo_env (sourceBucketName (demo_source (Some 0) (Some (minPartSize - 1))))
             (sourceKey (demo_source (Some 0) (Some (minPartSize - 1)))) = Inr 500000"
    by (simp add: demo_defs)
  have h2: "head demo_env (sourceBucketName (demo_source (Some 0) (Some minPartSize)))
             (sourceKey (demo_source (Some 0) (Some minPartSize))) = Inr 500000"
    by (simp add: demo_defs)
  have r1: "multipartUploadCopy demo_env demo_state ''obj''
        (demo_source (Some 0) (Some (minPartSize - 1))) demo_sequential =
       (Some (Inl copySize_error), demo_state\<lparr>trace := [HeadReq ''src'' ''key'']\<rparr>)"
    using minimum_size_rejection[OF h1 f(1), of demo_state "''obj''"]
    by (simp add: demo_defs js_or_def minPartSize_def)
  have r2: "multipartUploadCopy demo_env demo_state ''obj''
        (demo_source (Some 0) (Some minPartSize)) (demo_sequential\<lparr>opt_partSize := Some 1000\<rparr>) =
       (Some (Inl partSize_error), demo_state\<lparr>trace := [HeadReq ''src'' ''key'']\<rparr>)"
    using minimum_size_rejection[OF h2 f(2), of demo_state "''obj''"]
    by (simp add: demo_defs js_or_def minPartSize_def)
  have r3: "prefix ([] @ [HeadReq ''src'' ''key'', InitReq ''obj''])
        (trace (snd (multipartUploadCopy demo_env demo_state ''obj''
                       (demo_source (Some 0) (Some minPartSize)) demo_sequential)))"
    using minimum_size_rejection[OF h2 f(1), of demo_state "''obj''"]
    by (simp add: demo_defs demo_sequential_def js_or_def minPartSize_def)
  have r4: "multipartUploadCopy demo_env demo_state ''obj''
        (demo_source (Some 0) (Some minPartSize)) demo_sequential =
       (Some (Inr (ok_res ''final'')),
        \<lparr>bucket = ''dst'', cancelFlag = False,
         trace = [HeadReq ''src'' ''key'', InitReq ''obj'',
                  PartCopyReq ''obj'' ''uid'' 1 (Num 0, Num 102399) ''src'' ''key'',
                  CompleteReq ''obj'' ''uid'' [\<lparr>number = 1, etag = ''1''\<rparr>]],
         done_array = [\<lparr>number = 1, etag = ''1''\<rparr>]\<rparr>)"
    by (simp add: run_defs demo_defs demo_sequential_def)
  show ?thesis using f(1) r1 r2 r3 r4
    by (simp add: demo_defs demo_sequential_def js_or_def minPartSize_def)
qed

text \<open>
  A \<open>partSize\<close> option of 0 is below the minimum and the upload is initiated and completed;
  and when the head request fails, its error is thrown, not a validation error.
\<close>

theorem minimum_size_rejection_counterexample:
  "multipartUploadCopy demo_env demo_state ''obj'' (demo_source None None)
     (demo_sequential\<lparr>opt_partSize := Some 0\<rparr>) =
   (Some (Inr (ok_res ''final'')),
    \<lparr>bucket = ''dst'', cancelFlag = False,
     trace = [HeadReq ''src'' ''key'', InitReq ''obj'',
              PartCopyReq ''obj'' ''uid'' 1 (Num 0, Num 499999) ''src'' ''key'',
              CompleteReq ''obj'' ''uid'' [\<lparr>number = 1, etag = ''1''\<rparr>]],
     done_array = [\<lparr>number = 1, etag = ''1''\<rparr>]\<rparr>)
   \<and> multipartUploadCopy (demo_env\<lparr>head := \<lambda>b k. Inl (new_Error ''gone'')\<rparr>) demo_state ''obj''
       (demo_source (Some 0) (Some 1000)) demo_options =
     (Some (Inl (Thrown \<lparr>ename = ''Error'', message = ''gone'', partNum = None\<rparr>)),
      demo_state\<lparr>bucket := ''src'', trace := [HeadReq ''src'' ''key'']\<rparr>)"
  by (simp add: run_defs demo_defs demo_sequential_def)

section \<open>The metadata request of an invocation\<close>

lemma multipartUploadCopy_trace:
  "prefix (trace s @ [HeadReq (sourceBucketName sd) (sourceKey sd)])
     (trace (snd (multipartUploadCopy E s nm sd opts)))"
proof (cases "head E (sourceBucketName sd) (sourceKey sd)")
  case (Inl e)
  then show ?thesis by (simp add: multipartUploadCopy_head_failed after_head_def)
next
  case (Inr d)
  have t: "trace (after_head E s sd) = trace s @ [HeadReq (sourceBucketName sd) (sourceKey sd)]"
    by (simp add: after_head_def)
  obtain r s' where run: "multipartUploadCopy E s nm sd opts = (r, s')"
    by (cases "multipartUploadCopy E s nm sd opts")
  with Inr
  have "resumeMultipartCopy E (after_head E s sd) (the (opt_checkpoint opts)) (defaulted sd d) opts = (r, s')
        \<or> fresh_copy E (after_head E s sd) nm (defaulted sd d) opts = (r, s')"
    by (auto simp: multipartUploadCopy_head_ok split: option.splits if_splits)
  then have "prefix (trace (after_head E s sd)) (trace s')"
    using resumeMultipartCopy_trace fresh_copy_trace by blast
  then show ?thesis by (simp add: t run)
qed

text \<open>
  C8, as the code has it. Every invocation issues the head request for the source, as its
  first call, whether the caller supplied \<open>endOffset\<close> or not. The size it reports is not used
  when the caller supplies a non-zero \<open>endOffset\<close>: the invocation behaves the same whatever
  size is reported. When \<open>endOffset\<close> is absent or 0, the reported size is the end of the
  range: the invocation behaves as if the caller had supplied that size as \<open>endOffset\<close>.
\<close>

theorem metadata_always_fetched:
  "prefix (trace s @ [HeadReq (sourceBucketName sd) (sourceKey sd)])
     (trace (snd (multipartUploadCopy E s nm sd opts)))
   \<and> (\<forall>d d'. head E (sourceBucketName sd) (sourceKey sd) = Inr d \<and> truthy (endOffset sd) \<longrightarrow>
        multipartUploadCopy (E\<lparr>head := \<lambda>b k. Inr d'\<rparr>) s nm sd opts =
        multipartUploadCopy E s nm sd opts)
   \<and> (\<forall>d. head E (sourceBucketName sd) (sourceKey sd) = Inr d \<and> \<not> truthy (endOffset sd) \<longrightarrow>
        multipartUploadCopy E s nm sd opts =
        multipartUploadCopy E s nm (sd\<lparr>endOffset := Some d\<rparr>) opts)"
proof (intro conjI allI impI)
  show "prefix (trace s @ [HeadReq (sourceBucketName sd) (sourceKey sd)])
     (trace (snd (multipartUploadCopy E s nm sd opts)))"
    by (rule multipartUploadCopy_trace)
next
  fix d d'
  assume a: "head E (sourceBucketName sd) (sourceKey sd) = Inr d \<and> truthy (endOffset sd)"
  then have e: "defaulted sd d' = defaulted sd d"
    by (auto simp: defaulted_def truthy_def js_or_def split: option.splits)
  have h: "after_head (E\<lparr>head := \<lambda>b k. Inr d'\<rparr>) s sd = after_head E s sd"
    by (simp add: after_head_def)
  have "multipartUploadCopy (E\<lparr>head := \<lambda>b k. Inr d'\<rparr>) s nm sd opts =
     (case opt_checkpoint opts of
        Some ck \<Rightarrow>
          if uploadId ck \<noteq> [] then resumeMultipartCopy E (after_head E s sd) ck (defaulted sd d) opts
          else fresh_copy E (after_head E s sd) nm (defaulted sd d) opts
      | None \<Rightarrow> fresh_copy E (after_head E s sd) nm (defaulted sd d) opts)"
    by (simp add: multipartUploadCopy_head_ok[where d = d'] h e
        resumeMultipartCopy_head_irrelevant fresh_copy_head_irrelevant
        cong: option.case_cong if_cong)
  also have "\<dots> = multipartUploadCopy E s nm sd opts"
    using a by (simp add: multipartUploadCopy_head_ok)
  finally show "multipartUploadCopy (E\<lparr>head := \<lambda>b k. Inr d'\<rparr>) s nm sd opts =
        multipartUploadCopy E s nm sd opts" .
next
  fix d
  assume a: "head E (sourceBucketName sd) (sourceKey sd) = Inr d \<and> \<not> truthy (endOffset sd)"
  let ?sd = "sd\<lparr>endOffset := Some d\<rparr>"
  have h: "head E (sourceBucketName ?sd) (sourceKey ?sd) = Inr d" using a by simp
  have e: "defaulted ?sd d = defaulted sd d"
    using a by (auto simp: defaulted_def truthy_def js_or_def split: option.splits)
  have ah: "after_head E s ?sd = after_head E s sd" by (simp add: after_head_def)
  show "multipartUploadCopy E s nm sd opts = multipartUploadCopy E s nm ?sd opts"
    using a by (simp add: multipartUploadCopy_head_ok[OF h] multipartUploadCopy_head_ok[where d = d] e ah
        cong: option.case_cong if_cong)
qed

theorem metadata_always_fetched_witness:
  "multipartUploadCopy demo_env demo_state ''obj'' (demo_source (Some 0) (Some 1000)) demo_options =
     (Some (Inl copySize_error), demo_state\<lparr>trace := [HeadReq ''src'' ''key'']\<rparr>)
   \<and> prefix ([] @ [HeadReq ''src'' ''key'']) [HeadReq ''src'' ''key'']
   \<and> head demo_env ''src'' ''key'' = Inr 500000 \<and> truthy (Some 1000)
   \<and> multipartUploadCopy (demo_env\<lparr>head := \<lambda>b k. Inr 7\<rparr>) demo_state ''obj''
        (demo_source (Some 0) (Some 1000)) demo_options =
      multipartUploadCopy demo_env demo_state ''obj'' (demo_source (Some 0) (Some 1000)) demo_options
   \<and> \<not> truthy None
   \<and> multipartUploadCopy demo_env demo_state ''obj'' (demo_source (Some 0) None) demo_sequential =
      multipartUploadCopy demo_env demo_state ''obj'' (demo_source (Some 0) (Some 500000)) demo_sequential
   \<and> multipartUploadCopy demo_env demo_state ''obj'' (demo_source (Some 0) None) demo_sequential =
      (Some (Inr (ok_res ''final'')),
       \<lparr>bucket = ''dst'', cancelFlag = False,
        trace = [HeadReq ''src'' ''key'', InitReq ''obj'',
                 PartCopyReq ''obj'' ''uid'' 1 (Num 0, Num 499999) ''src'' ''key'',
                 CompleteReq ''obj'' ''uid'' [\<lparr>number = 1, etag = ''1''\<rparr>]],
        done_array = [\<lparr>number = 1, etag = ''1''\<rparr>]\<rparr>)"
proof -
  note t = metadata_always_fetched[where E = demo_env and s = demo_state and nm = "''obj''"
      and sd = "demo_source (Some 0) (Some 1000)" and opts = demo_options]
  note u = metadata_always_fetched[where E = demo_env and s = demo_state and nm = "''obj''"
      and sd = "demo_source (Some 0) None" and opts = demo_sequential]
  have r: "multipartUploadCopy demo_env demo_state ''obj'' (demo_source (Some 0) (Some 1000)) demo_options =
     (Some (Inl copySize_error), demo_state\<lparr>trace := [HeadReq ''src'' ''key'']\<rparr>)"
    by (simp add: run_defs demo_defs copySize_error_def)
  have p: "prefix ([] @ [HeadReq ''src'' ''key'']) [HeadReq ''src'' ''key'']"
    using t r by (simp add: demo_defs)
  have h: "head demo_env ''src'' ''key'' = Inr 500000 \<and> truthy (Some 1000)"
    by (simp add: demo_defs truthy_def)
  have i: "multipartUploadCopy (demo_env\<lparr>head := \<lambda>b k. Inr 7\<rparr>) demo_state ''obj''
        (demo_source (Some 0) (Some 1000)) demo_options =
      multipartUploadCopy demo_env demo_state ''obj'' (demo_source (Some 0) (Some 1000)) demo_options"
    using t h by (simp add: demo_source_def)
  have e: "multipartUploadCopy demo_env demo_state ''obj'' (demo_source (Some 0) None) demo_sequential =
      multipartUploadCopy demo_env demo_state ''obj'' (demo_source (Some 0) (Some 500000)) demo_sequential"
    using u by (simp add: demo_env_def demo_source_def truthy_def)
  have f: "multipartUploadCopy demo_env demo_state ''obj'' (demo_source (Some 0) None) demo_sequential =
      (Some (Inr (ok_res ''final'')),
       \<lparr>bucket = ''dst'', cancelFlag = False,
        trace = [HeadReq ''src'' ''key'', InitReq ''obj'',
                 PartCopyReq ''obj'' ''uid'' 1 (Num 0, Num 499999) ''src'' ''key'',
                 CompleteReq ''obj'' ''uid'' [\<lparr>number = 1, etag = ''1''\<rparr>]],
        done_array = [\<lparr>number = 1, etag = ''1''\<rparr>]\<rparr>)"
    by (simp add: run_defs demo_defs demo_sequential_def)
  show ?thesis using r p h i e f by (simp add: truthy_def)
qed

text \<open>
  With both offsets supplied the head request is still the first call.
\<close>

theorem metadata_only_without_endOffset_counterexample:
  "multipartUploadCopy demo_env demo_state ''obj'' (demo_source (Some 0) (Some 204800))
     (demo_options\<lparr>opt_partSize := Some 102400, parallel := Some 1\<rparr>) =
   (Some (Inr (ok_res ''final'')),
    \<lparr>bucket = ''dst'', cancelFlag = False,
     trace = [HeadReq ''src'' ''key'', InitReq ''obj'',
              PartCopyReq ''obj'' ''uid'' 1 (Num 0, Num 102399) ''src'' ''key'',
              PartCopyReq ''obj'' ''uid'' 2 (Num 102400, Num 204799) ''src'' ''key'',
              CompleteReq ''obj'' ''uid'' [\<lparr>number = 1, etag = ''1''\<rparr>, \<lparr>number = 2, etag = ''2''\<rparr>]],
     done_array = [\<lparr>number = 1, etag = ''1''\<rparr>, \<lparr>number = 2, etag = ''2''\<rparr>]\<rparr>)"
  by (simp add: run_defs demo_defs)

section \<open>Resuming from a checkpoint\<close>







section \<open>Completing the upload\<close>






section \<open>A failed part in the parallel mode\<close>


section \<open>Recording and reporting a copied part\<close>

lemma job_finish_reported:
  assumes "nth_opt partOffs (p - 1) = Some po" and "request E p = Inr r" and "\<not> isCancel s"
    and "\<not> cancelDuring E (PartCopyReq (name ck) (uploadId ck) p (range_of po)
            (sourceBucketName src) (sourceKey src))"
  shows "uploadPartJob_finish E opts ck partOffs src p s =
     (let s2 = s\<lparr>done_array := done_array s @ [\<lparr>number = p, etag = headers_etag r\<rparr>]\<rparr>;
          ratio = of_nat (length (done_array s2)) / of_int (int (length partOffs))
      in case progress opts of
           None \<Rightarrow> (None, s2)
         | Some g \<Rightarrow>
             (map_option (catch_partNum p) (g ratio (ck\<lparr>doneParts := done_array s2\<rparr>) r),
              ext_call E s2 (ProgressCall ratio (ck\<lparr>doneParts := done_array s2\<rparr>) r)))"
  using assms
  by (auto simp: uploadPartJob_finish_def uploadPartCopy_recv_def arrive_def Let_def isCancel_def
      checkpoint_of_def split: option.splits)

lemma multipartUploadCopy_progress_zero:
  assumes h: "head E (sourceBucketName sd) (sourceKey sd) = Inr d" and fr: "is_fresh opts"
    and sz: "minPartSize \<le> js_or (endOffset sd) d - js_or (startOffset sd) 0"
    and nv: "\<not> (\<exists>v. opt_partSize opts = Some v \<and> v \<noteq> 0 \<and> v < minPartSize)"
    and init: "initMultipartUpload E nm = Inr (uid, r0)" and pr: "progress opts = Some g"
  shows "prefix (trace s @ [HeadReq (sourceBucketName sd) (sourceKey sd), InitReq nm,
           ProgressCall 0
             \<lparr>name = nm, copySize = js_or (endOffset sd) d - js_or (startOffset sd) 0,
              partSize = getPartSize E (js_or (endOffset sd) d - js_or (startOffset sd) 0) (opt_partSize opts),
              uploadId = uid, doneParts = []\<rparr> r0]) (trace (snd (multipartUploadCopy E s nm sd opts)))"
proof -
  obtain res s1 where run: "multipartUploadCopy E s nm sd opts = (res, s1)"
    by (cases "multipartUploadCopy E s nm sd opts")
  from fresh_progress_zero[OF h fr sz nv init pr run] show ?thesis by (simp add: run)
qed

lemma multipartUploadCopy_resumed_ratio:
  assumes ck: "opt_checkpoint opts = Some ck" "uploadId ck \<noteq> []"
    and wf: "\<forall>partOffs. divideMultipartCopyParts (copySize ck) (partSize ck) (js_or (startOffset sd) 0) =
               Some partOffs \<longrightarrow> done_within_plan ck (length partOffs)"
  shows "\<exists>tr. trace (snd (multipartUploadCopy E s nm sd opts)) = trace s @ tr \<and> ratios_ok tr"
proof (cases "head E (sourceBucketName sd) (sourceKey sd)")
  case (Inl e)
  then have "trace (snd (multipartUploadCopy E s nm sd opts)) =
             trace s @ [HeadReq (sourceBucketName sd) (sourceKey sd)]"
    by (simp add: multipartUploadCopy_head_failed after_head_def)
  then show ?thesis by simp
next
  case (Inr d)
  obtain res s1 where run: "resumeMultipartCopy E (after_head E s sd) ck (defaulted sd d) opts = (res, s1)"
    by (cases "resumeMultipartCopy E (after_head E s sd) ck (defaulted sd d) opts")
  have eq: "multipartUploadCopy E s nm sd opts = (res, s1)"
    using ck run by (simp add: multipartUploadCopy_head_ok[OF Inr])
  have cnt: "length (doneParts ck) + length (todo_parts ck (int (length partOffs))) \<le> length partOffs"
    if "divideMultipartCopyParts (copySize ck) (partSize ck) (startOffset (defaulted sd d)) = Some partOffs"
    for partOffs
  proof -
    from that wf have "done_within_plan ck (length partOffs)" by (simp add: defaulted_def)
    then show ?thesis using todo_parts_count[of ck "length partOffs"] by (simp add: done_within_plan_def)
  qed
  from resumeMultipartCopy_ratio[OF run cnt]
  obtain tr where "trace s1 = trace (after_head E s sd) @ tr" "ratios_ok tr" by blast
  then have "trace s1 = trace s @ ([HeadReq (sourceBucketName sd) (sourceKey sd)] @ tr)
             \<and> ratios_ok ([HeadReq (sourceBucketName sd) (sourceKey sd)] @ tr)"
    by (simp add: after_head_def)
  then show ?thesis unfolding eq by (metis snd_conv)
qed

text \<open>
  C7, as the code has it. When the copy of a part has succeeded and cancellation has not
  been requested by then, the job appends the entry of the part (its number and the \<open>etag\<close> of
  the response) to \<open>doneParts\<close> and then, if there is a progress callback, calls it with the
  ratio of the length of \<open>doneParts\<close> to the number of parts, the checkpoint and the raw
  response. A fresh start that passes the validation and initiates the upload first calls the
  callback with ratio 0, the new checkpoint and the response of the initiation. Every ratio
  reported is between 0 and 1, during a fresh invocation and during the resumption of a
  checkpoint whose \<open>doneParts\<close> are parts of the plan, each at most once.
\<close>

theorem part_success_recorded_and_reported:
  "(\<forall>po r.
      nth_opt partOffs (p - 1) = Some po \<and> request E p = Inr r \<and> \<not> isCancel s \<and>
      \<not> cancelDuring E (PartCopyReq (name ck) (uploadId ck) p (range_of po)
            (sourceBucketName src) (sourceKey src)) \<longrightarrow>
      uploadPartJob_finish E opts ck partOffs src p s =
        (let s2 = s\<lparr>done_array := done_array s @ [\<lparr>number = p, etag = headers_etag r\<rparr>]\<rparr>;
             ratio = of_nat (length (done_array s2)) / of_int (int (length partOffs))
         in case progress opts of
              None \<Rightarrow> (None, s2)
            | Some g \<Rightarrow>
                (map_option (catch_partNum p) (g ratio (ck\<lparr>doneParts := done_array s2\<rparr>) r),
                 ext_call E s2 (ProgressCall ratio (ck\<lparr>doneParts := done_array s2\<rparr>) r))))
   \<and> (\<forall>d uid r0 g.
        head E (sourceBucketName sd) (sourceKey sd) = Inr d \<and> is_fresh o2 \<and>
        minPartSize \<le> js_or (endOffset sd) d - js_or (startOffset sd) 0 \<and>
        \<not> (\<exists>v. opt_partSize o2 = Some v \<and> v \<noteq> 0 \<and> v < minPartSize) \<and>
        initMultipartUpload E nm = Inr (uid, r0) \<and> progress o2 = Some g \<longrightarrow>
          prefix (trace s0 @ [HeadReq (sourceBucketName sd) (sourceKey sd), InitReq nm,
             ProgressCall 0
               \<lparr>name = nm, copySize = js_or (endOffset sd) d - js_or (startOffset sd) 0,
                partSize = getPartSize E (js_or (endOffset sd) d - js_or (startOffset sd) 0)
                             (opt_partSize o2),
                uploadId = uid, doneParts = []\<rparr> r0])
            (trace (snd (multipartUploadCopy E s0 nm sd o2))))
   \<and> (is_fresh o2 \<longrightarrow>
        (\<exists>tr. trace (snd (multipartUploadCopy E s0 nm sd o2)) = trace s0 @ tr \<and> ratios_ok tr))
   \<and> (\<forall>c. opt_checkpoint o2 = Some c \<and> uploadId c \<noteq> [] \<and>
          (\<forall>partOffs. divideMultipartCopyParts (copySize c) (partSize c) (js_or (startOffset sd) 0) =
               Some partOffs \<longrightarrow> done_within_plan c (length partOffs)) \<longrightarrow>
        (\<exists>tr. trace (snd (multipartUploadCopy E s0 nm sd o2)) = trace s0 @ tr \<and> ratios_ok tr))"
proof (intro conjI allI impI)
  fix po r
  assume a: "nth_opt partOffs (p - 1) = Some po \<and> request E p = Inr r \<and> \<not> isCancel s \<and>
      \<not> cancelDuring E (PartCopyReq (name ck) (uploadId ck) p (range_of po)
            (sourceBucketName src) (sourceKey src))"
  then show "uploadPartJob_finish E opts ck partOffs src p s =
        (let s2 = s\<lparr>done_array := done_array s @ [\<lparr>number = p, etag = headers_etag r\<rparr>]\<rparr>;
             ratio = of_nat (length (done_array s2)) / of_int (int (length partOffs))
         in case progress opts of
              None \<Rightarrow> (None, s2)
            | Some g \<Rightarrow>
                (map_option (catch_partNum p) (g ratio (ck\<lparr>doneParts := done_array s2\<rparr>) r),
                 ext_call E s2 (ProgressCall ratio (ck\<lparr>doneParts := done_array s2\<rparr>) r)))"
    using job_finish_reported[of partOffs p po E r s ck src opts] by blast
next
  fix d uid r0 g
  assume "head E (sourceBucketName sd) (sourceKey sd) = Inr d \<and> is_fresh o2 \<and>
        minPartSize \<le> js_or (endOffset sd) d - js_or (startOffset sd) 0 \<and>
        \<not> (\<exists>v. opt_partSize o2 = Some v \<and> v \<noteq> 0 \<and> v < minPartSize) \<and>
        initMultipartUpload E nm = Inr (uid, r0) \<and> progress o2 = Some g"
  then show "prefix (trace s0 @ [HeadReq (sourceBucketName sd) (sourceKey sd), InitReq nm,
             ProgressCall 0
               \<lparr>name = nm, copySize = js_or (endOffset sd) d - js_or (startOffset sd) 0,
                partSize = getPartSize E (js_or (endOffset sd) d - js_or (startOffset sd) 0)
                             (opt_partSize o2),
                uploadId = uid, doneParts = []\<rparr> r0])
            (trace (snd (multipartUploadCopy E s0 nm sd o2)))"
    using multipartUploadCopy_progress_zero[of E sd d o2 nm uid r0 g s0] by blast
next
  assume fr: "is_fresh o2"
  obtain res s1 where run: "multipartUploadCopy E s0 nm sd o2 = (res, s1)"
    by (cases "multipartUploadCopy E s0 nm sd o2")
  from multipartUploadCopy_fresh_ratio[OF fr run]
  show "\<exists>tr. trace (snd (multipartUploadCopy E s0 nm sd o2)) = trace s0 @ tr \<and> ratios_ok tr"
    by (simp add: run)
next
  fix c
  assume "opt_checkpoint o2 = Some c \<and> uploadId c \<noteq> [] \<and>
          (\<forall>partOffs. divideMultipartCopyParts (copySize c) (partSize c) (js_or (startOffset sd) 0) =
               Some partOffs \<longrightarrow> done_within_plan c (length partOffs))"
  then show "\<exists>tr. trace (snd (multipartUploadCopy E s0 nm sd o2)) = trace s0 @ tr \<and> ratios_ok tr"
    using multipartUploadCopy_resumed_ratio[of o2 c sd E s0 nm] by blast
qed

theorem part_success_recorded_and_reported_witness:
  "summary (multipartUploadCopy demo_env demo_state ''obj'' (demo_source (Some 0) (Some 204800))
      demo_reporting) =
     (Some (Inr (ok_res ''final'')), [1, 2], [0, 1 / 2, 1], [1, 2])
   \<and> is_fresh demo_reporting
   \<and> (\<exists>tr. trace (snd (multipartUploadCopy demo_env demo_state ''obj''
                          (demo_source (Some 0) (Some 204800)) demo_reporting)) =
            trace demo_state @ tr \<and> ratios_ok tr)
   \<and> prefix (trace demo_state @ [HeadReq ''src'' ''key'', InitReq ''obj'',
        ProgressCall 0 (demo_checkpoint 204800 102400 []) (ok_res [])])
       (trace (snd (multipartUploadCopy demo_env demo_state ''obj''
                      (demo_source (Some 0) (Some 204800)) demo_reporting)))
   \<and> uploadPartJob_finish demo_env demo_reporting (demo_checkpoint 204800 102400 [])
        (map (part_at 204800 102400 0) [0..1]) demo_range 1 demo_state =
      (None,
       demo_state\<lparr>done_array := [\<lparr>number = 1, etag = ''1''\<rparr>],
                  trace := [ProgressCall (1 / 2)
                              (demo_checkpoint 204800 102400 [\<lparr>number = 1, etag = ''1''\<rparr>])
                              (ok_res ''1'')]\<rparr>)
   \<and> done_within_plan (demo_checkpoint 204800 102400 [\<lparr>number = 2, etag = ''2''\<rparr>]) 2
   \<and> (\<exists>tr. trace (snd (multipartUploadCopy demo_env demo_state ''obj'' (demo_source None (Some 204800))
                          (demo_two_parts [\<lparr>number = 2, etag = ''2''\<rparr>]))) =
            trace demo_state @ tr \<and> ratios_ok tr)
   \<and> summary (multipartUploadCopy demo_env demo_state ''obj'' (demo_source None (Some 204800))
        (demo_two_parts [\<lparr>number = 2, etag = ''2''\<rparr>])) =
     (Some (Inr (ok_res ''final'')), [1], [1], [2, 1])"
proof -
  let ?sd = "demo_source (Some 0) (Some 204800)"
  let ?sr = "demo_source None (Some 204800)"
  let ?ck = "demo_checkpoint 204800 102400 []"
  let ?c2 = "demo_checkpoint 204800 102400 [\<lparr>number = 2, etag = ''2''\<rparr>]"
  let ?o2 = "demo_two_parts [\<lparr>number = 2, etag = ''2''\<rparr>]"
  let ?parts = "map (part_at 204800 102400 0) [0..1]"
  note t1 = part_success_recorded_and_reported[where E = demo_env and s0 = demo_state
      and nm = "''obj''" and sd = ?sd and ?o2.0 = demo_reporting]
  note t2 = part_success_recorded_and_reported[where E = demo_env and s = demo_state
      and ck = ?ck and partOffs = ?parts and src = demo_range and p = 1 and opts = demo_reporting]
  note t3 = part_success_recorded_and_reported[where E = demo_env and s0 = demo_state
      and nm = "''obj''" and sd = ?sr and ?o2.0 = ?o2]
  have s: "summary (multipartUploadCopy demo_env demo_state ''obj'' ?sd demo_reporting) =
     (Some (Inr (ok_res ''final'')), [1, 2], [0, 1 / 2, 1], [1, 2])"
    by (simp add: run_defs demo_defs demo_reporting_def summary_def)
  have fr: "is_fresh demo_reporting" by (simp add: is_fresh_def demo_reporting_def demo_options_def)
  from t1 fr
  have c: "\<exists>tr. trace (snd (multipartUploadCopy demo_env demo_state ''obj'' ?sd demo_reporting)) =
            trace demo_state @ tr \<and> ratios_ok tr" by blast
  have h: "head demo_env (sourceBucketName ?sd) (sourceKey ?sd) = Inr 500000
      \<and> minPartSize \<le> js_or (endOffset ?sd) 500000 - js_or (startOffset ?sd) 0
      \<and> \<not> (\<exists>v. opt_partSize demo_reporting = Some v \<and> v \<noteq> 0 \<and> v < minPartSize)
      \<and> initMultipartUpload demo_env ''obj'' = Inr (''uid'', ok_res [])
      \<and> progress demo_reporting = Some (\<lambda>q c x. None)"
    by (simp add: demo_defs demo_reporting_def js_or_def minPartSize_def)
  from t1 fr h
  have "prefix (trace demo_state @ [HeadReq (sourceBucketName ?sd) (sourceKey ?sd), InitReq ''obj'',
             ProgressCall 0
               \<lparr>name = ''obj'', copySize = js_or (endOffset ?sd) 500000 - js_or (startOffset ?sd) 0,
                partSize = getPartSize demo_env (js_or (endOffset ?sd) 500000 - js_or (startOffset ?sd) 0)
                             (opt_partSize demo_reporting),
                uploadId = ''uid'', doneParts = []\<rparr> (ok_res [])])
          (trace (snd (multipartUploadCopy demo_env demo_state ''obj'' ?sd demo_reporting)))"
    by blast
  then have b: "prefix (trace demo_state @ [HeadReq ''src'' ''key'', InitReq ''obj'',
             ProgressCall 0 ?ck (ok_res [])])
          (trace (snd (multipartUploadCopy demo_env demo_state ''obj'' ?sd demo_reporting)))"
    by (simp add: demo_defs demo_reporting_def demo_checkpoint_def js_or_def)
  have a0: "nth_opt ?parts (1 - 1) = Some (part_at 204800 102400 0 0) \<and>
      request demo_env 1 = Inr (ok_res ''1'') \<and> \<not> isCancel demo_state \<and>
      \<not> cancelDuring demo_env (PartCopyReq (name ?ck) (uploadId ?ck) 1
            (range_of (part_at 204800 102400 0 0))
            (sourceBucketName demo_range) (sourceKey demo_range))"
    by (simp add: nth_opt_def upto_rec1 demo_defs isCancel_def show_int_def show_nat.simps)
  from t2 a0
  have "uploadPartJob_finish demo_env demo_reporting ?ck ?parts demo_range 1 demo_state =
        (let s2 = demo_state\<lparr>done_array := done_array demo_state @
                     [\<lparr>number = 1, etag = headers_etag (ok_res ''1'')\<rparr>]\<rparr>;
             ratio = of_nat (length (done_array s2)) / of_int (int (length ?parts))
         in case progress demo_reporting of
              None \<Rightarrow> (None, s2)
            | Some g \<Rightarrow>
                (map_option (catch_partNum 1) (g ratio (?ck\<lparr>doneParts := done_array s2\<rparr>) (ok_res ''1'')),
                 ext_call demo_env s2 (ProgressCall ratio (?ck\<lparr>doneParts := done_array s2\<rparr>) (ok_res ''1''))))"
    by blast
  then have a: "uploadPartJob_finish demo_env demo_reporting ?ck ?parts demo_range 1 demo_state =
      (None,
       demo_state\<lparr>done_array := [\<lparr>number = 1, etag = ''1''\<rparr>],
                  trace := [ProgressCall (1 / 2)
                              (demo_checkpoint 204800 102400 [\<lparr>number = 1, etag = ''1''\<rparr>])
                              (ok_res ''1'')]\<rparr>)"
    by (simp add: demo_defs demo_reporting_def demo_checkpoint_def upto_rec1 ext_call_def issue_def
        arrive_def Let_def)
  have w: "done_within_plan ?c2 2" by (simp add: done_within_plan_def demo_checkpoint_def)
  have pl: "divideMultipartCopyParts (copySize ?c2) (partSize ?c2) (js_or (startOffset ?sr) 0) =
      Some ?parts"
    by (simp add: demo_checkpoint_def demo_source_def js_or_def divide_parts_exact exact_bound_def
        overflow_bound_def ceil_div_def)
  have r: "opt_checkpoint ?o2 = Some ?c2 \<and> uploadId ?c2 \<noteq> [] \<and>
          (\<forall>partOffs. divideMultipartCopyParts (copySize ?c2) (partSize ?c2) (js_or (startOffset ?sr) 0) =
               Some partOffs \<longrightarrow> done_within_plan ?c2 (length partOffs))"
    unfolding pl using w by (auto simp: demo_two_parts_def demo_checkpoint_def)
  from t3 r
  have d: "\<exists>tr. trace (snd (multipartUploadCopy demo_env demo_state ''obj'' ?sr ?o2)) =
            trace demo_state @ tr \<and> ratios_ok tr" by blast
  have e: "summary (multipartUploadCopy demo_env demo_state ''obj'' ?sr ?o2) =
     (Some (Inr (ok_res ''final'')), [1], [1], [2, 1])"
    by (simp add: run_defs demo_defs demo_two_parts_def demo_checkpoint_def summary_def)
  from s fr c b a w d e show ?thesis by blast
qed

text \<open>
  When cancellation is requested while the copy of part 1 is in flight, the copy succeeds
  and yet nothing is recorded and nothing is reported. And resuming a checkpoint of two parts
  whose \<open>doneParts\<close> names parts 4 and 5, which the plan does not have, reports the ratios
  3/2 and 2.
\<close>

theorem part_success_recorded_counterexample:
  "summary (multipartUploadCopy (demo_env\<lparr>cancelDuring := (\<lambda>ev. part_copy_no ev = Some 1)\<rparr>)
      demo_state ''obj'' (demo_source (Some 0) (Some 204800)) demo_reporting) =
     (Some (Inl CancelEvent), [1], [0], [])
   \<and> copied (demo_env\<lparr>cancelDuring := (\<lambda>ev. part_copy_no ev = Some 1)\<rparr>) 1
   \<and> summary (multipartUploadCopy demo_env demo_state ''obj'' (demo_source None (Some 204800))
        (demo_two_parts [\<lparr>number = 4, etag = ''4''\<rparr>, \<lparr>number = 5, etag = ''5''\<rparr>])) =
     (Some (Inr (ok_res ''final'')), [1, 2], [3 / 2, 2], [4, 5, 1, 2])"
  by (simp add: run_defs demo_defs demo_reporting_def demo_two_parts_def demo_checkpoint_def
      summary_def copied_def)

end
